theory Spec2Isabelle
  imports Main "HOL-Library.List_Lexorder" "HOL-Library.Char_ord" "HOL-Library.Multiset"
    "HOL-Library.Monad_Syntax"
begin

section \<open>Values\<close>

text \<open>
  Go's \<^verbatim>\<open>interface{}\<close> values as they occur in payloads, defaults, constraints and
  generated schemas. \<open>JNil\<close> is the nil interface. A Go map is a finite map; it is a
  partial function here (\<open>JObj\<close>). Floating point numbers are left out.
\<close>

datatype jvalue =
    JNil
  | JBool bool
  | JInt int
  | JStr string
  | JArr "jvalue list"
  | JObj (entries: "string \<Rightarrow> jvalue option")

type_synonym gomap = "string \<Rightarrow> jvalue option"

text \<open>
  The keys of \<^verbatim>\<open>map[interface{}]string\<close> must be comparable, so slices and maps
  cannot occur there: the keys of \<^verbatim>\<open>Enum\<close> are scalars.
\<close>

datatype enum_key = KNil | KBool bool | KInt int | KStr string

fun key_value :: "enum_key \<Rightarrow> jvalue" where
  "key_value KNil = JNil"
| "key_value (KBool b) = JBool b"
| "key_value (KInt i) = JInt i"
| "key_value (KStr s) = JStr s"

subsection \<open>\<^verbatim>\<open>fmt.Sprintf("%v", x)\<close> on scalars\<close>

definition digit_char :: "nat \<Rightarrow> char" where
  "digit_char d = char_of (48 + d)"

fun decimal :: "nat \<Rightarrow> string" where
  "decimal n = (if n < 10 then [digit_char n] else decimal (n div 10) @ [digit_char (n mod 10)])"

definition Sprintf_v :: "enum_key \<Rightarrow> string" where
  "Sprintf_v k =
     (case k of
        KNil \<Rightarrow> ''<nil>''
      | KBool b \<Rightarrow> (if b then ''true'' else ''false'')
      | KInt i \<Rightarrow> (if i < 0 then ''-'' @ decimal (nat (- i)) else decimal (nat i))
      | KStr s \<Rightarrow> s)"

section \<open>The variable descriptor\<close>

text \<open>
  \<^verbatim>\<open>JsonType\<close> is a string type. \<^verbatim>\<open>Enum\<close> is a Go map whose iteration order is
  not fixed by the language; the association list gives its entries in the order in which
  the runtime happens to enumerate them, so every order is a possible input.
  \<^verbatim>\<open>Constraints\<close> is only ever copied key by key, which does not depend on the order.
\<close>

type_synonym JsonType = string

definition JsonTypeString :: JsonType where "JsonTypeString = ''string''"
definition JsonTypeNumeric :: JsonType where "JsonTypeNumeric = ''number''"
definition JsonTypeInteger :: JsonType where "JsonTypeInteger = ''integer''"
definition JsonTypeBoolean :: JsonType where "JsonTypeBoolean = ''boolean''"

record BrokerVariable =
  Required :: bool
  FieldName :: string
  Type :: JsonType
  Details :: string
  Default :: jvalue
  Enum :: "(enum_key \<times> string) list"
  Constraints :: gomap

section \<open>The label formatter\<close>

text \<open>
  Go strings are byte strings. The model is exact on ASCII field names:
  \<^verbatim>\<open>unicode.IsSpace\<close> on an ASCII byte is tab, line feed, vertical tab, form feed,
  carriage return or space, and \<^verbatim>\<open>strings.ToUpper\<close> on ASCII maps a..z to A..Z.
\<close>

definition isSpace :: "char \<Rightarrow> bool" where
  "isSpace c = (c = CHR 0x09 \<or> c = CHR 0x0A \<or> c = CHR 0x0B \<or> c = CHR 0x0C
                \<or> c = CHR 0x0D \<or> c = CHR '' '')"

definition isSeparator :: "char \<Rightarrow> bool" where
  "isSeparator c = (isSpace c \<or> c = CHR ''-'' \<or> c = CHR ''_'' \<or> c = CHR ''.'')"

text \<open>
  \<^verbatim>\<open>strings.FieldsFunc\<close>: one pass over the string; \<open>cur\<close> is the field being read,
  empty when no field has started.
\<close>

fun fieldsFrom :: "(char \<Rightarrow> bool) \<Rightarrow> string \<Rightarrow> string \<Rightarrow> string list" where
  "fieldsFrom f cur [] = (if cur = [] then [] else [cur])"
| "fieldsFrom f cur (c # cs) =
     (if f c then (if cur = [] then fieldsFrom f [] cs else cur # fieldsFrom f [] cs)
      else fieldsFrom f (cur @ [c]) cs)"

definition FieldsFunc :: "string \<Rightarrow> (char \<Rightarrow> bool) \<Rightarrow> string list" where
  "FieldsFunc s f = fieldsFrom f [] s"

definition toUpperByte :: "char \<Rightarrow> char" where
  "toUpperByte c =
     (if CHR ''a'' \<le> c \<and> c \<le> CHR ''z'' then char_of (of_char c - (32::nat)) else c)"

definition ToUpper :: "string \<Rightarrow> string" where
  "ToUpper s = map toUpperByte s"

fun Join :: "string list \<Rightarrow> string \<Rightarrow> string" where
  "Join [] sep = []"
| "Join [x] sep = x"
| "Join (x # y # ys) sep = x @ sep @ Join (y # ys) sep"

definition acronyms :: "string \<Rightarrow> string option" where
  "acronyms = map_of
     [(''id'', ''ID''), (''uri'', ''URI''), (''url'', ''URL''), (''gb'', ''GB''),
      (''jdbc'', ''JDBC'')]"

text \<open>
  The body of the loop over the components. \<^verbatim>\<open>c[:1]\<close> panics on an empty string;
  \<open>None\<close> is that panic.
\<close>

definition labelComponent :: "string \<Rightarrow> string option" where
  "labelComponent c =
     (case acronyms c of
        Some replace \<Rightarrow> Some replace
      | None \<Rightarrow> (case c of [] \<Rightarrow> None | x # rest \<Rightarrow> Some (ToUpper [x] @ rest)))"

fun labelComponents :: "string list \<Rightarrow> string list option" where
  "labelComponents [] = Some []"
| "labelComponents (c # cs) =
     (case labelComponent c of
        None \<Rightarrow> None
      | Some l \<Rightarrow> (case labelComponents cs of None \<Rightarrow> None | Some ls \<Rightarrow> Some (l # ls)))"

definition fieldNameToLabel :: "string \<Rightarrow> string option" where
  "fieldNameToLabel fieldName =
     (case labelComponents (FieldsFunc fieldName isSeparator) of
        None \<Rightarrow> None
      | Some components \<Rightarrow> Some (Join components '' ''))"

text \<open>
  What the loop body computes on a non-empty component, without the panic branch, and the
  ASCII strings (top bit of every byte clear) on which the byte model of the label
  formatter is exact.
\<close>

definition renderComponent :: "string \<Rightarrow> string" where
  "renderComponent c =
     (case acronyms c of Some replace \<Rightarrow> replace | None \<Rightarrow> ToUpper (take 1 c) @ drop 1 c)"

definition ascii :: "string \<Rightarrow> bool" where
  "ascii s = list_all (\<lambda>c. \<not> digit7 c) s"

section \<open>The schema builder\<close>

text \<open>
  Modelled from the spec: the keyword constants of package \<^verbatim>\<open>validation\<close>
  (\<^verbatim>\<open>KeyTitle\<close>, \<^verbatim>\<open>KeyEnum\<close>, \<^verbatim>\<open>KeyDescription\<close>, \<^verbatim>\<open>KeyType\<close>, \<^verbatim>\<open>KeyDefault\<close>), whose
  declarations are not among the sources; the spec names the per-field keys
  title, enum, description, type and default.
\<close>

definition KeyTitle :: string where "KeyTitle = ''title''"
definition KeyEnum :: string where "KeyEnum = ''enum''"
definition KeyDescription :: string where "KeyDescription = ''description''"
definition KeyType :: string where "KeyType = ''type''"
definition KeyDefault :: string where "KeyDefault = ''default''"

text \<open>
  \<^verbatim>\<open>sort.Slice\<close> is not stable. The enumeration order of the map is arbitrary already,
  so a stable sort of an arbitrary order yields every result the unstable sort can yield.
\<close>

definition enumeration :: "BrokerVariable \<Rightarrow> enum_key list" where
  "enumeration bv = sort_key Sprintf_v (map fst (Enum bv))"

definition ToSchema :: "BrokerVariable \<Rightarrow> gomap option" where
  "ToSchema bv =
     (case (if FieldName bv \<noteq> ''''
            then (case fieldNameToLabel (FieldName bv) of
                    None \<Rightarrow> None
                  | Some label \<Rightarrow> Some (Map.empty(KeyTitle \<mapsto> JStr label)))
            else Some Map.empty) of
        None \<Rightarrow> None
      | Some schema1 \<Rightarrow>
          (let schema2 = schema1 ++ Constraints bv;
               schema3 = (if length (Enum bv) > 0
                          then schema2(KeyEnum \<mapsto> JArr (map key_value (enumeration bv)))
                          else schema2);
               schema4 = (if Details bv \<noteq> ''''
                          then schema3(KeyDescription \<mapsto> JStr (Details bv)) else schema3);
               schema5 = (if Type bv \<noteq> ''''
                          then schema4(KeyType \<mapsto> JStr (Type bv)) else schema4);
               schema6 = (if Default bv \<noteq> JNil
                          then schema5(KeyDefault \<mapsto> Default bv) else schema5)
           in Some schema6))"

text \<open>
  Modelled from the spec: \<^verbatim>\<open>utils.StringSet\<close> (\<^verbatim>\<open>NewStringSet\<close>, \<^verbatim>\<open>Add\<close>,
  \<^verbatim>\<open>IsEmpty\<close>, \<^verbatim>\<open>ToSlice\<close>), which is not among the sources. The spec asks for a set
  of unique names, listed in any stable order; the order of first insertion is used.
\<close>

type_synonym StringSet = "string list"

definition NewStringSet :: StringSet where
  "NewStringSet = []"

definition Add :: "StringSet \<Rightarrow> string \<Rightarrow> StringSet" where
  "Add s x = (if x \<in> set s then s else s @ [x])"

definition IsEmpty :: "StringSet \<Rightarrow> bool" where
  "IsEmpty s = (s = [])"

definition ToSlice :: "StringSet \<Rightarrow> string list" where
  "ToSlice s = s"

text \<open>The loop of \<^verbatim>\<open>CreateJsonSchema\<close> over the descriptors.\<close>

fun collect :: "BrokerVariable list \<Rightarrow> gomap \<Rightarrow> StringSet \<Rightarrow> (gomap \<times> StringSet) option" where
  "collect [] properties required = Some (properties, required)"
| "collect (variable # rest) properties required =
     (case ToSchema variable of
        None \<Rightarrow> None
      | Some fragment \<Rightarrow>
          collect rest (properties(FieldName variable \<mapsto> JObj fragment))
            (if Required variable then Add required (FieldName variable) else required))"

definition CreateJsonSchema :: "BrokerVariable list \<Rightarrow> gomap option" where
  "CreateJsonSchema schemaVariables =
     (case collect schemaVariables Map.empty NewStringSet of
        None \<Rightarrow> None
      | Some (properties, required) \<Rightarrow>
          (let schema = [''$schema'' \<mapsto> JStr ''http://json-schema.org/draft-04/schema#'',
                         ''type'' \<mapsto> JStr ''object'',
                         ''properties'' \<mapsto> JObj properties]
           in Some (if \<not> IsEmpty required
                    then schema(''required'' \<mapsto> JArr (map JStr (ToSlice required)))
                    else schema)))"

section \<open>The defaulter\<close>

text \<open>The payload map is mutated in place; the model returns the payload after the loop.\<close>

fun ApplyDefaults :: "gomap \<Rightarrow> BrokerVariable list \<Rightarrow> gomap" where
  "ApplyDefaults parameters [] = parameters"
| "ApplyDefaults parameters (v # variables) =
     ApplyDefaults
       (if parameters (FieldName v) = None \<and> Default v \<noteq> JNil
        then parameters(FieldName v \<mapsto> Default v) else parameters)
       variables"

section \<open>The validator\<close>

text \<open>
  \<^verbatim>\<open>gojsonschema.Validate\<close> is an external library. It is a parameter of the model: given
  the schema and the document it either fails (\<open>Inl\<close>, the processing error) or returns
  its result, of which the code reads \<^verbatim>\<open>String()\<close> of every reported error, in order.
\<close>

type_synonym engine = "gomap \<Rightarrow> gomap \<Rightarrow> string + string list"

text \<open>
  The returned \<^verbatim>\<open>error\<close> values: the engine's own error, or the \<^verbatim>\<open>multierror.Error\<close>
  with its list of messages and its \<^verbatim>\<open>ErrorFormat\<close>. The body of
  \<^verbatim>\<open>utils.SingleLineErrorFormatter\<close> is not among the sources; the value records only
  that this formatter is the one installed.
\<close>

datatype ErrorFormatFunc = SingleLineErrorFormatter

datatype error =
    EngineError string
  | MultiError (Errors: "string list") (ErrorFormat: ErrorFormatFunc)

definition multierror_Append :: "string list \<Rightarrow> string \<Rightarrow> string list" where
  "multierror_Append errs e = errs @ [e]"

definition ValidateVariablesAgainstSchema :: "engine \<Rightarrow> gomap \<Rightarrow> gomap \<Rightarrow> error option" where
  "ValidateVariablesAgainstSchema gojsonschema_Validate parameters schema =
     (case gojsonschema_Validate schema parameters of
        Inl err \<Rightarrow> Some (EngineError err)
      | Inr resultErrors \<Rightarrow>
          if length resultErrors = 0 then None
          else Some (MultiError (fold (\<lambda>r allErrors. multierror_Append allErrors r)
                                   resultErrors [])
                       SingleLineErrorFormatter))"

text \<open>The outer \<open>None\<close> is a panic while the schema is built.\<close>

definition ValidateVariables :: "engine \<Rightarrow> gomap \<Rightarrow> BrokerVariable list \<Rightarrow> error option option" where
  "ValidateVariables gojsonschema_Validate parameters variables =
     (case CreateJsonSchema variables of
        None \<Rightarrow> None
      | Some schema \<Rightarrow> Some (ValidateVariablesAgainstSchema gojsonschema_Validate parameters schema))"

definition single_line :: "string \<Rightarrow> bool" where
  "single_line s = (CHR 0x0A \<notin> set s)"

section \<open>Validation of a descriptor\<close>

text \<open>
  Modelled from the spec: \<^verbatim>\<open>validation.FieldError\<close>, \<^verbatim>\<open>validation.ErrIfBlank\<close>,
  \<^verbatim>\<open>validation.ErrIfNotJSONSchemaType\<close> and \<^verbatim>\<open>FieldError.Also\<close>, which are not among
  the sources. By the spec a field is blank when it is empty or white space, the
  recognized types are string, number, integer and boolean, and all applicable errors
  are collected and returned together. An error is its kind with the name of the field;
  the empty list is the nil error.
\<close>

datatype FieldError = BlankField string | InvalidSchemaType string

definition ErrIfBlank :: "string \<Rightarrow> string \<Rightarrow> FieldError option" where
  "ErrIfBlank str field = (if list_all isSpace str then Some (BlankField field) else None)"

definition ErrIfNotJSONSchemaType :: "string \<Rightarrow> string \<Rightarrow> FieldError option" where
  "ErrIfNotJSONSchemaType str field =
     (if str \<in> set [JsonTypeString, JsonTypeNumeric, JsonTypeInteger, JsonTypeBoolean]
      then None else Some (InvalidSchemaType field))"

fun Also :: "FieldError list \<Rightarrow> FieldError option list \<Rightarrow> FieldError list" where
  "Also errs [] = errs"
| "Also errs (None # es) = Also errs es"
| "Also errs (Some e # es) = Also (errs @ [e]) es"

definition Validate :: "BrokerVariable \<Rightarrow> FieldError list" where
  "Validate bv =
     Also []
       [ErrIfBlank (FieldName bv) ''field_name'',
        ErrIfNotJSONSchemaType (Type bv) ''type'',
        ErrIfBlank (Details bv) ''details'']"

section \<open>The operations over an explicit store\<close>

text \<open>
  Maps, slices and the structs behind pointers are objects of the Go heap, and the
  operations receive references to them. For the question of which objects an operation
  writes, the operations are modelled a second time, statement by statement, over a store
  of such objects: \<^verbatim>\<open>make\<close> and composite literals allocate, \<^verbatim>\<open>m[k] = v\<close> writes the
  object that \<open>m\<close> refers to, and every read of a field or an entry reads the store as
  it is at that moment. A slot of a map holds a value or a reference to another map.
  \<open>None\<close> as a result is a panic (a write to a nil map, a nil pointer).
\<close>

type_synonym addr = nat

datatype cell = VAL jvalue | REF addr

record stored_variable =
  sRequired :: bool
  sFieldName :: string
  sType :: JsonType
  sDetails :: string
  sDefault :: jvalue
  sEnum :: "addr option"
  sConstraints :: "addr option"

datatype obj =
    OMap "string \<Rightarrow> cell option"
  | OEnum "(enum_key \<times> string) list"
  | OVar stored_variable
  | OSlice "stored_variable list"
  | OMultiError "string list" ErrorFormatFunc

record store =
  objs :: "addr \<Rightarrow> obj option"
  next_addr :: addr

definition alloc :: "obj \<Rightarrow> store \<Rightarrow> addr \<times> store" where
  "alloc ob s =
     (next_addr s, s\<lparr>objs := (objs s)(next_addr s \<mapsto> ob), next_addr := Suc (next_addr s)\<rparr>)"

text \<open>Reads. A nil map reads as the empty map; a nil pointer cannot be read.\<close>

definition get_map :: "addr option \<Rightarrow> store \<Rightarrow> (string \<Rightarrow> cell option) option" where
  "get_map r s =
     (case r of
        None \<Rightarrow> Some Map.empty
      | Some a \<Rightarrow> (case objs s a of Some (OMap m) \<Rightarrow> Some m | _ \<Rightarrow> None))"

definition get_enum :: "addr option \<Rightarrow> store \<Rightarrow> (enum_key \<times> string) list option" where
  "get_enum r s =
     (case r of
        None \<Rightarrow> Some []
      | Some a \<Rightarrow> (case objs s a of Some (OEnum e) \<Rightarrow> Some e | _ \<Rightarrow> None))"

definition get_var :: "addr \<Rightarrow> store \<Rightarrow> stored_variable option" where
  "get_var a s = (case objs s a of Some (OVar d) \<Rightarrow> Some d | _ \<Rightarrow> None)"

definition get_slice :: "addr \<Rightarrow> store \<Rightarrow> stored_variable list option" where
  "get_slice a s = (case objs s a of Some (OSlice vs) \<Rightarrow> Some vs | _ \<Rightarrow> None)"

definition get_elem :: "addr \<Rightarrow> nat \<Rightarrow> store \<Rightarrow> stored_variable option" where
  "get_elem a i s =
     (case get_slice a s of
        None \<Rightarrow> None
      | Some vs \<Rightarrow> if i < length vs then Some (vs ! i) else None)"

text \<open>Writes: \<^verbatim>\<open>m[k] = v\<close>, and the loop \<^verbatim>\<open>for k, v := range src { m[k] = v }\<close>.\<close>

definition map_assign :: "addr option \<Rightarrow> string \<Rightarrow> cell \<Rightarrow> store \<Rightarrow> store option" where
  "map_assign r k v s =
     (case r of
        None \<Rightarrow> None
      | Some a \<Rightarrow>
          (case objs s a of
             Some (OMap m) \<Rightarrow> Some (s\<lparr>objs := (objs s)(a \<mapsto> OMap (m(k \<mapsto> v)))\<rparr>)
           | _ \<Rightarrow> None))"

definition map_assign_all :: "addr \<Rightarrow> (string \<Rightarrow> cell option) \<Rightarrow> store \<Rightarrow> store option" where
  "map_assign_all a src s =
     (case objs s a of
        Some (OMap m) \<Rightarrow> Some (s\<lparr>objs := (objs s)(a \<mapsto> OMap (m ++ src))\<rparr>)
      | _ \<Rightarrow> None)"

definition ToSchema_st :: "addr \<Rightarrow> store \<Rightarrow> (addr \<times> store) option" where
  "ToSchema_st bv s0 =
     (let (schema, s1) = alloc (OMap Map.empty) s0 in
      do {
        d1 \<leftarrow> get_var bv s1;
        s2 \<leftarrow> (if sFieldName d1 \<noteq> ''''
               then do {
                 label \<leftarrow> fieldNameToLabel (sFieldName d1);
                 map_assign (Some schema) KeyTitle (VAL (JStr label)) s1 }
               else Some s1);
        d2 \<leftarrow> get_var bv s2;
        constraints \<leftarrow> get_map (sConstraints d2) s2;
        s3 \<leftarrow> map_assign_all schema constraints s2;
        d3 \<leftarrow> get_var bv s3;
        enum \<leftarrow> get_enum (sEnum d3) s3;
        s4 \<leftarrow> (if length enum > 0
               then map_assign (Some schema) KeyEnum
                      (VAL (JArr (map key_value (sort_key Sprintf_v (map fst enum))))) s3
               else Some s3);
        d4 \<leftarrow> get_var bv s4;
        s5 \<leftarrow> (if sDetails d4 \<noteq> ''''
               then map_assign (Some schema) KeyDescription (VAL (JStr (sDetails d4))) s4
               else Some s4);
        d5 \<leftarrow> get_var bv s5;
        s6 \<leftarrow> (if sType d5 \<noteq> ''''
               then map_assign (Some schema) KeyType (VAL (JStr (sType d5))) s5
               else Some s5);
        d6 \<leftarrow> get_var bv s6;
        s7 \<leftarrow> (if sDefault d6 \<noteq> JNil
               then map_assign (Some schema) KeyDefault (VAL (sDefault d6)) s6
               else Some s6);
        Some (schema, s7)
      })"

text \<open>
  The loop of \<^verbatim>\<open>CreateJsonSchema\<close>: its body, then the iteration by index, with
  \<open>n\<close> iterations left. The loop variable is a copy of the element, and
  \<^verbatim>\<open>ToSchema\<close> is called on its address.
\<close>

definition CreateJsonSchema_body ::
  "addr \<Rightarrow> stored_variable \<Rightarrow> StringSet \<Rightarrow> store \<Rightarrow> (StringSet \<times> store) option" where
  "CreateJsonSchema_body properties elem required s =
     (let (variable, s1) = alloc (OVar elem) s in
      do {
        (fragment, s2) \<leftarrow> ToSchema_st variable s1;
        d \<leftarrow> get_var variable s2;
        s3 \<leftarrow> map_assign (Some properties) (sFieldName d) (REF fragment) s2;
        d' \<leftarrow> get_var variable s3;
        Some (if sRequired d' then Add required (sFieldName d') else required, s3)
      })"

fun CreateJsonSchema_loop ::
  "addr \<Rightarrow> addr \<Rightarrow> nat \<Rightarrow> nat \<Rightarrow> StringSet \<Rightarrow> store \<Rightarrow> (StringSet \<times> store) option" where
  "CreateJsonSchema_loop schemaVariables properties i 0 required s = Some (required, s)"
| "CreateJsonSchema_loop schemaVariables properties i (Suc n) required s =
     do {
       elem \<leftarrow> get_elem schemaVariables i s;
       (required', s') \<leftarrow> CreateJsonSchema_body properties elem required s;
       CreateJsonSchema_loop schemaVariables properties (Suc i) n required' s'
     }"

definition CreateJsonSchema_st :: "addr \<Rightarrow> store \<Rightarrow> (addr \<times> store) option" where
  "CreateJsonSchema_st schemaVariables s0 =
     (let (properties, s1) = alloc (OMap Map.empty) s0 in
      do {
        vs \<leftarrow> get_slice schemaVariables s1;
        (required, s2) \<leftarrow>
          CreateJsonSchema_loop schemaVariables properties 0 (length vs) NewStringSet s1;
        let (schema, s3) =
          alloc (OMap [''$schema'' \<mapsto> VAL (JStr ''http://json-schema.org/draft-04/schema#''),
                       ''type'' \<mapsto> VAL (JStr ''object''),
                       ''properties'' \<mapsto> REF properties]) s2;
        s4 \<leftarrow> (if \<not> IsEmpty required
               then map_assign (Some schema) ''required''
                      (VAL (JArr (map JStr (ToSlice required)))) s3
               else Some s3);
        Some (schema, s4)
      })"

definition ApplyDefaults_body :: "addr option \<Rightarrow> stored_variable \<Rightarrow> store \<Rightarrow> store option" where
  "ApplyDefaults_body parameters v s =
     do {
       m \<leftarrow> get_map parameters s;
       if m (sFieldName v) = None \<and> sDefault v \<noteq> JNil
       then map_assign parameters (sFieldName v) (VAL (sDefault v)) s
       else Some s
     }"

fun ApplyDefaults_loop :: "addr option \<Rightarrow> addr \<Rightarrow> nat \<Rightarrow> nat \<Rightarrow> store \<Rightarrow> store option" where
  "ApplyDefaults_loop parameters variables i 0 s = Some s"
| "ApplyDefaults_loop parameters variables i (Suc n) s =
     do {
       v \<leftarrow> get_elem variables i s;
       s' \<leftarrow> ApplyDefaults_body parameters v s;
       ApplyDefaults_loop parameters variables (Suc i) n s'
     }"

definition ApplyDefaults_st :: "addr option \<Rightarrow> addr \<Rightarrow> store \<Rightarrow> store option" where
  "ApplyDefaults_st parameters variables s =
     do {
       vs \<leftarrow> get_slice variables s;
       ApplyDefaults_loop parameters variables 0 (length vs) s
     }"

text \<open>
  The external engine reads the schema and the document through the store and is not
  given a way to write it. The \<^verbatim>\<open>multierror.Error\<close> is an object that
  \<^verbatim>\<open>multierror.Append\<close> extends in place; the returned error refers to it.
\<close>

type_synonym engine_st = "store \<Rightarrow> addr \<Rightarrow> addr option \<Rightarrow> string + string list"

datatype error_st = EngineError_st string | MultiErrorAt addr

fun Append_loop :: "addr \<Rightarrow> string list \<Rightarrow> store \<Rightarrow> store option" where
  "Append_loop allErrors [] s = Some s"
| "Append_loop allErrors (r # rs) s =
     (case objs s allErrors of
        Some (OMultiError errs fmt) \<Rightarrow>
          Append_loop allErrors rs
            (s\<lparr>objs := (objs s)(allErrors \<mapsto> OMultiError (multierror_Append errs r) fmt)\<rparr>)
      | _ \<Rightarrow> None)"

definition ValidateVariablesAgainstSchema_st ::
  "engine_st \<Rightarrow> addr option \<Rightarrow> addr \<Rightarrow> store \<Rightarrow> (error_st option \<times> store) option" where
  "ValidateVariablesAgainstSchema_st gojsonschema_Validate parameters schema s =
     (case gojsonschema_Validate s schema parameters of
        Inl err \<Rightarrow> Some (Some (EngineError_st err), s)
      | Inr resultErrors \<Rightarrow>
          if length resultErrors = 0 then Some (None, s)
          else (let (allErrors, s1) = alloc (OMultiError [] SingleLineErrorFormatter) s in
                do {
                  s2 \<leftarrow> Append_loop allErrors resultErrors s1;
                  Some (Some (MultiErrorAt allErrors), s2)
                }))"

definition ValidateVariables_st ::
  "engine_st \<Rightarrow> addr option \<Rightarrow> addr \<Rightarrow> store \<Rightarrow> (error_st option \<times> store) option" where
  "ValidateVariables_st gojsonschema_Validate parameters variables s =
     do {
       (schema, s1) \<leftarrow> CreateJsonSchema_st variables s;
       ValidateVariablesAgainstSchema_st gojsonschema_Validate parameters schema s1
     }"

definition Validate_st :: "addr \<Rightarrow> store \<Rightarrow> (FieldError list \<times> store) option" where
  "Validate_st bv s =
     do {
       d1 \<leftarrow> get_var bv s;
       d2 \<leftarrow> get_var bv s;
       d3 \<leftarrow> get_var bv s;
       Some (Also []
               [ErrIfBlank (sFieldName d1) ''field_name'',
                ErrIfNotJSONSchemaType (sType d2) ''type'',
                ErrIfBlank (sDetails d3) ''details''], s)
     }"

text \<open>
  A store is well formed when nothing lives at or beyond the next free address. An
  operation from \<open>s\<close> to \<open>s'\<close> keeps the objects below \<open>n\<close> when none of them changed.
\<close>

definition wf_store :: "store \<Rightarrow> bool" where
  "wf_store s = (\<forall>a. next_addr s \<le> a \<longrightarrow> objs s a = None)"

definition keeps :: "nat \<Rightarrow> store \<Rightarrow> store \<Rightarrow> bool" where
  "keeps n s s' = (next_addr s \<le> next_addr s' \<and> (\<forall>a. a < n \<longrightarrow> objs s' a = objs s a))"


section \<open>Properties of the label formatter\<close>

lemma fieldsFrom_nonempty: "c \<in> set (fieldsFrom f cur s) \<Longrightarrow> c \<noteq> []"
  by (induction s arbitrary: cur) (auto split: if_splits)


lemma labelComponent_render: "c \<noteq> [] \<Longrightarrow> labelComponent c = Some (renderComponent c)"
  by (cases c) (auto simp: labelComponent_def renderComponent_def split: option.splits)

lemma labelComponents_render:
  "\<forall>c\<in>set cs. c \<noteq> [] \<Longrightarrow> labelComponents cs = Some (map renderComponent cs)"
  by (induction cs) (auto simp: labelComponent_render)

lemma fieldNameToLabel_render:
  "fieldNameToLabel s = Some (Join (map renderComponent (FieldsFunc s isSeparator)) '' '')"
proof -
  have "\<forall>c\<in>set (FieldsFunc s isSeparator). c \<noteq> []"
    unfolding FieldsFunc_def using fieldsFrom_nonempty by blast
  then show ?thesis
    by (simp add: fieldNameToLabel_def labelComponents_render)
qed

lemma upper_first: "c \<noteq> [] \<Longrightarrow> ToUpper (take 1 c) @ drop 1 c = toUpperByte (hd c) # tl c"
  by (cases c) (simp_all add: ToUpper_def)

lemma acronyms_table:
  "acronyms c = (if c = ''id'' then Some ''ID'' else if c = ''uri'' then Some ''URI''
     else if c = ''url'' then Some ''URL'' else if c = ''gb'' then Some ''GB''
     else if c = ''jdbc'' then Some ''JDBC'' else None)"
  unfolding acronyms_def by (simp only: map_of.simps fun_upd_apply fst_conv snd_conv)

lemma renderComponent_cases:
  "c \<noteq> [] \<Longrightarrow> renderComponent c =
     (if c = ''id'' then ''ID'' else if c = ''uri'' then ''URI'' else if c = ''url'' then ''URL''
      else if c = ''gb'' then ''GB'' else if c = ''jdbc'' then ''JDBC''
      else toUpperByte (hd c) # tl c)"
proof -
  assume "c \<noteq> []"
  then have eq: "ToUpper (take 1 c) @ drop 1 c = toUpperByte (hd c) # tl c"
    by (rule upper_first)
  show ?thesis
    unfolding renderComponent_def acronyms_table eq [symmetric]
    by (simp only: option.case if_distrib [of "case_option _ _"] cong: if_cong)
qed

text \<open>
  C4 (as amended): on every ASCII field name the label is the components of
  \<^verbatim>\<open>strings.FieldsFunc\<close> joined by one space, where a component that is exactly
  \<open>id\<close>, \<open>uri\<close>, \<open>url\<close>, \<open>gb\<close> or \<open>jdbc\<close> (whole component, same letter case) is
  replaced by \<open>ID\<close>, \<open>URI\<close>, \<open>URL\<close>, \<open>GB\<close>, \<open>JDBC\<close>, and every other component,
  also one that differs from a table key only in letter case or that merely contains a
  key, has its first byte upper-cased and is otherwise unchanged.
\<close>

theorem fieldNameToLabel_acronyms:
  assumes "ascii s"
  shows "\<exists>labels. fieldNameToLabel s = Some (Join labels '' '') \<and>
           list_all2 (\<lambda>c l. l =
               (if c = ''id'' then ''ID'' else if c = ''uri'' then ''URI''
                else if c = ''url'' then ''URL'' else if c = ''gb'' then ''GB''
                else if c = ''jdbc'' then ''JDBC'' else toUpperByte (hd c) # tl c))
             (FieldsFunc s isSeparator) labels"
proof -
  let ?cs = "FieldsFunc s isSeparator"
  have "\<forall>c\<in>set ?cs. c \<noteq> []"
    unfolding FieldsFunc_def using fieldsFrom_nonempty by blast
  then have "list_all2 (\<lambda>c l. l =
               (if c = ''id'' then ''ID'' else if c = ''uri'' then ''URI''
                else if c = ''url'' then ''URL'' else if c = ''gb'' then ''GB''
                else if c = ''jdbc'' then ''JDBC'' else toUpperByte (hd c) # tl c))
             ?cs (map renderComponent ?cs)"
    unfolding list_all2_map2 using renderComponent_cases
    by (intro list_all2_same [THEN iffD2]) blast
  then show ?thesis using fieldNameToLabel_render by blast
qed

theorem fieldNameToLabel_acronyms_witness:
  "ascii ''my-Url.idx_id'' \<and> fieldNameToLabel ''my-Url.idx_id'' = Some ''My Url Idx ID''"
proof -
  have a: "ascii ''my-Url.idx_id''" by (simp add: ascii_def)
  have c: "FieldsFunc ''my-Url.idx_id'' isSeparator = [''my'', ''Url'', ''idx'', ''id'']"
    by (simp add: FieldsFunc_def isSeparator_def isSpace_def)
  have u: "toUpperByte CHR ''m'' = CHR ''M''" "toUpperByte CHR ''U'' = CHR ''U''"
     "toUpperByte CHR ''i'' = CHR ''I''" by code_simp+
  from fieldNameToLabel_acronyms [OF a] obtain labels where
    l: "fieldNameToLabel ''my-Url.idx_id'' = Some (Join labels '' '')" and
    r: "list_all2 (\<lambda>c l. l =
               (if c = ''id'' then ''ID'' else if c = ''uri'' then ''URI''
                else if c = ''url'' then ''URL'' else if c = ''gb'' then ''GB''
                else if c = ''jdbc'' then ''JDBC'' else toUpperByte (hd c) # tl c))
             (FieldsFunc ''my-Url.idx_id'' isSeparator) labels" by blast
  from r have "labels = [''My'', ''Url'', ''Idx'', ''ID'']"
    unfolding c by (simp add: list_all2_Cons1 u)
  with l a show ?thesis by simp
qed

text \<open>
  The lookup is case-sensitive: the component \<open>Url\<close> is not replaced by \<open>URL\<close>.
\<close>

theorem fieldNameToLabel_case_sensitive: "fieldNameToLabel ''Url'' \<noteq> Some ''URL''"
  by code_simp









section \<open>Properties of the fragment of one descriptor\<close>

lemma fieldNameToLabel_total: "\<exists>label. fieldNameToLabel s = Some label"
  using fieldNameToLabel_render by blast

lemma ToSchema_merge:
  assumes "fieldNameToLabel (FieldName bv) = Some label"
  shows "ToSchema bv = Some
     ((if FieldName bv \<noteq> '''' then [KeyTitle \<mapsto> JStr label] else Map.empty)
      ++ Constraints bv
      ++ (if Enum bv \<noteq> [] then [KeyEnum \<mapsto> JArr (map key_value (enumeration bv))] else Map.empty)
      ++ (if Details bv \<noteq> '''' then [KeyDescription \<mapsto> JStr (Details bv)] else Map.empty)
      ++ (if Type bv \<noteq> '''' then [KeyType \<mapsto> JStr (Type bv)] else Map.empty)
      ++ (if Default bv \<noteq> JNil then [KeyDefault \<mapsto> Default bv] else Map.empty))"
  using assms by (simp add: ToSchema_def Let_def)

lemma keys_distinct:
  "KeyTitle \<noteq> KeyEnum" "KeyTitle \<noteq> KeyDescription" "KeyTitle \<noteq> KeyType" "KeyTitle \<noteq> KeyDefault"
  "KeyEnum \<noteq> KeyDescription" "KeyEnum \<noteq> KeyType" "KeyEnum \<noteq> KeyDefault"
  "KeyDescription \<noteq> KeyType" "KeyDescription \<noteq> KeyDefault" "KeyType \<noteq> KeyDefault"
  by (simp_all add: KeyTitle_def KeyEnum_def KeyDescription_def KeyType_def KeyDefault_def)

lemma ToSchema_title:
  "ToSchema bv = Some frag \<Longrightarrow> Constraints bv KeyTitle = Some v \<Longrightarrow> frag KeyTitle = Some v"
  using fieldNameToLabel_total [of "FieldName bv"] keys_distinct
  by (auto simp: ToSchema_merge map_add_def)

lemma ToSchema_enum:
  "ToSchema bv = Some frag \<Longrightarrow> Enum bv \<noteq> [] \<Longrightarrow>
     frag KeyEnum = Some (JArr (map key_value (enumeration bv)))"
  using fieldNameToLabel_total [of "FieldName bv"] keys_distinct
  by (auto simp: ToSchema_merge map_add_def)

lemma ToSchema_no_enum:
  "ToSchema bv = Some frag \<Longrightarrow> Enum bv = [] \<Longrightarrow> frag KeyEnum = Constraints bv KeyEnum"
  using fieldNameToLabel_total [of "FieldName bv"] keys_distinct
  by (auto simp: ToSchema_merge map_add_def split: option.splits)

lemma ToSchema_description:
  "ToSchema bv = Some frag \<Longrightarrow> Details bv \<noteq> '''' \<Longrightarrow> frag KeyDescription = Some (JStr (Details bv))"
  using fieldNameToLabel_total [of "FieldName bv"] keys_distinct
  by (auto simp: ToSchema_merge map_add_def)

lemma ToSchema_type:
  "ToSchema bv = Some frag \<Longrightarrow> Type bv \<noteq> '''' \<Longrightarrow> frag KeyType = Some (JStr (Type bv))"
  using fieldNameToLabel_total [of "FieldName bv"] keys_distinct
  by (auto simp: ToSchema_merge map_add_def)

lemma ToSchema_default:
  "ToSchema bv = Some frag \<Longrightarrow> Default bv \<noteq> JNil \<Longrightarrow> frag KeyDefault = Some (Default bv)"
  using fieldNameToLabel_total [of "FieldName bv"]
  by (auto simp: ToSchema_merge map_add_def)

lemma ToSchema_other_keys:
  "ToSchema bv = Some frag \<Longrightarrow>
     k \<notin> {KeyTitle, KeyEnum, KeyDescription, KeyType, KeyDefault} \<Longrightarrow> frag k = Constraints bv k"
  using fieldNameToLabel_total [of "FieldName bv"]
  by (auto simp: ToSchema_merge map_add_def split: option.splits)

lemma enumeration_sorted: "sorted (map Sprintf_v (enumeration bv))"
  by (simp add: enumeration_def)

lemma enumeration_mset: "mset (enumeration bv) = mset (map fst (Enum bv))"
  by (simp add: enumeration_def)


text \<open>
  C1: \<^verbatim>\<open>ToSchema\<close> never panics, and the fragment is the right-biased merge, in this
  order, of the generated title, the constraints, the generated enum, description, type
  and default; each part is present only when the code emits it. So a constraint named
  \<open>title\<close> replaces the generated title, and a constraint named \<open>enum\<close>,
  \<open>description\<close>, \<open>type\<close> or \<open>default\<close> is overwritten by the generated value whenever
  that value is emitted.
\<close>

theorem ToSchema_merge_order:
  "\<exists>label frag.
     fieldNameToLabel (FieldName bv) = Some label \<and> ToSchema bv = Some frag \<and>
     frag =
       (if FieldName bv \<noteq> '''' then [KeyTitle \<mapsto> JStr label] else Map.empty)
       ++ Constraints bv
       ++ (if Enum bv \<noteq> [] then [KeyEnum \<mapsto> JArr (map key_value (enumeration bv))]
           else Map.empty)
       ++ (if Details bv \<noteq> '''' then [KeyDescription \<mapsto> JStr (Details bv)] else Map.empty)
       ++ (if Type bv \<noteq> '''' then [KeyType \<mapsto> JStr (Type bv)] else Map.empty)
       ++ (if Default bv \<noteq> JNil then [KeyDefault \<mapsto> Default bv] else Map.empty) \<and>
     (\<forall>v. Constraints bv KeyTitle = Some v \<longrightarrow> frag KeyTitle = Some v) \<and>
     (Enum bv \<noteq> [] \<longrightarrow> frag KeyEnum = Some (JArr (map key_value (enumeration bv)))) \<and>
     (Details bv \<noteq> '''' \<longrightarrow> frag KeyDescription = Some (JStr (Details bv))) \<and>
     (Type bv \<noteq> '''' \<longrightarrow> frag KeyType = Some (JStr (Type bv))) \<and>
     (Default bv \<noteq> JNil \<longrightarrow> frag KeyDefault = Some (Default bv))"
proof -
  obtain label where l: "fieldNameToLabel (FieldName bv) = Some label"
    using fieldNameToLabel_total by blast
  obtain frag where f: "ToSchema bv = Some frag"
    using ToSchema_merge [OF l] by blast
  have "frag =
       (if FieldName bv \<noteq> '''' then [KeyTitle \<mapsto> JStr label] else Map.empty)
       ++ Constraints bv
       ++ (if Enum bv \<noteq> [] then [KeyEnum \<mapsto> JArr (map key_value (enumeration bv))]
           else Map.empty)
       ++ (if Details bv \<noteq> '''' then [KeyDescription \<mapsto> JStr (Details bv)] else Map.empty)
       ++ (if Type bv \<noteq> '''' then [KeyType \<mapsto> JStr (Type bv)] else Map.empty)
       ++ (if Default bv \<noteq> JNil then [KeyDefault \<mapsto> Default bv] else Map.empty)"
    using ToSchema_merge [OF l] f by simp
  moreover have "\<forall>v. Constraints bv KeyTitle = Some v \<longrightarrow> frag KeyTitle = Some v"
    using ToSchema_title [OF f] by simp
  moreover have "Enum bv \<noteq> [] \<longrightarrow> frag KeyEnum = Some (JArr (map key_value (enumeration bv)))"
    using ToSchema_enum [OF f] by simp
  moreover have "Details bv \<noteq> [] \<longrightarrow> frag KeyDescription = Some (JStr (Details bv))"
    using ToSchema_description [OF f] by simp
  moreover have "Type bv \<noteq> [] \<longrightarrow> frag KeyType = Some (JStr (Type bv))"
    using ToSchema_type [OF f] by simp
  moreover have "Default bv \<noteq> JNil \<longrightarrow> frag KeyDefault = Some (Default bv)"
    using ToSchema_default [OF f] by simp
  ultimately show ?thesis
    using l f by (intro exI conjI)
qed

theorem ToSchema_merge_order_witness:
  "\<exists>frag. ToSchema \<lparr>Required = False, FieldName = ''instance-id'', Type = ''integer'',
        Details = ''Number of nodes'', Default = JInt 3, Enum = [],
        Constraints = [''title'' \<mapsto> JStr ''Custom'', ''type'' \<mapsto> JStr ''object'',
                       ''minimum'' \<mapsto> JInt 1]\<rparr> = Some frag \<and>
     frag ''title'' = Some (JStr ''Custom'') \<and>
     frag ''type'' = Some (JStr ''integer'') \<and>
     frag ''description'' = Some (JStr ''Number of nodes'') \<and>
     frag ''default'' = Some (JInt 3)"
proof -
  let ?bv = "\<lparr>Required = False, FieldName = ''instance-id'', Type = ''integer'',
        Details = ''Number of nodes'', Default = JInt 3, Enum = [],
        Constraints = [''title'' \<mapsto> JStr ''Custom'', ''type'' \<mapsto> JStr ''object'',
                       ''minimum'' \<mapsto> JInt 1]\<rparr>"
  show ?thesis
    using ToSchema_merge_order [of ?bv]
    by (auto simp: map_add_def KeyTitle_def KeyEnum_def KeyDescription_def KeyType_def
        KeyDefault_def)
qed


lemma ToSchema_total: "\<exists>frag. ToSchema bv = Some frag"
  using fieldNameToLabel_total [of "FieldName bv"] ToSchema_merge [of bv] by auto

lemma ToSchema_dom_no_constraints:
  assumes "ToSchema bv = Some frag" and "Constraints bv = Map.empty"
  shows "dom frag \<subseteq> {KeyTitle, KeyEnum, KeyDescription, KeyType, KeyDefault}"
proof
  fix k assume "k \<in> dom frag"
  then have "frag k \<noteq> None" by auto
  show "k \<in> {KeyTitle, KeyEnum, KeyDescription, KeyType, KeyDefault}"
  proof (rule ccontr)
    assume "k \<notin> {KeyTitle, KeyEnum, KeyDescription, KeyType, KeyDefault}"
    then have "frag k = Constraints bv k"
      by (rule ToSchema_other_keys [OF assms(1)])
    then have "frag k = None" using assms(2) by simp
    with \<open>frag k \<noteq> None\<close> show False by simp
  qed
qed

text \<open>
  C3 (as amended): when \<^verbatim>\<open>Enum\<close> is not empty the fragment's \<open>enum\<close> entry is a list
  of exactly the keys of \<^verbatim>\<open>Enum\<close> (as a multiset), in ascending order of their
  \<^verbatim>\<open>%v\<close> strings. When \<^verbatim>\<open>Enum\<close> is empty the code writes no \<open>enum\<close> entry: the
  fragment then has under \<open>enum\<close> what \<^verbatim>\<open>Constraints\<close> has there, nothing if it has
  nothing. Every key other than the five generated ones is in the fragment exactly as it
  is in \<^verbatim>\<open>Constraints\<close>, so empty constraints contribute no key.
\<close>

theorem ToSchema_enum_sorted:
  "\<exists>frag. ToSchema bv = Some frag \<and>
     (Enum bv \<noteq> [] \<longrightarrow>
        (\<exists>keys. frag KeyEnum = Some (JArr (map key_value keys)) \<and>
           sorted (map Sprintf_v keys) \<and> mset keys = mset (map fst (Enum bv)))) \<and>
     (Enum bv = [] \<longrightarrow> frag KeyEnum = Constraints bv KeyEnum) \<and>
     (\<forall>k. k \<notin> {KeyTitle, KeyEnum, KeyDescription, KeyType, KeyDefault} \<longrightarrow>
        frag k = Constraints bv k) \<and>
     (Constraints bv = Map.empty \<longrightarrow>
        dom frag \<subseteq> {KeyTitle, KeyEnum, KeyDescription, KeyType, KeyDefault})"
proof -
  obtain frag where f: "ToSchema bv = Some frag"
    using ToSchema_total by blast
  have "Enum bv \<noteq> [] \<longrightarrow>
        (\<exists>keys. frag KeyEnum = Some (JArr (map key_value keys)) \<and>
           sorted (map Sprintf_v keys) \<and> mset keys = mset (map fst (Enum bv)))"
    using ToSchema_enum [OF f] enumeration_sorted [of bv] enumeration_mset [of bv] by blast
  moreover have "Enum bv = [] \<longrightarrow> frag KeyEnum = Constraints bv KeyEnum"
    using ToSchema_no_enum [OF f] by simp
  moreover have "\<forall>k. k \<notin> {KeyTitle, KeyEnum, KeyDescription, KeyType, KeyDefault} \<longrightarrow>
        frag k = Constraints bv k"
    using ToSchema_other_keys [OF f] by blast
  moreover have "Constraints bv = Map.empty \<longrightarrow>
        dom frag \<subseteq> {KeyTitle, KeyEnum, KeyDescription, KeyType, KeyDefault}"
    using ToSchema_dom_no_constraints [OF f] by blast
  ultimately show ?thesis
    using f by (intro exI conjI)
qed

lemma enumeration_example:
  "enumeration \<lparr>Required = True, FieldName = ''size'', Type = ''string'',
        Details = ''Size'', Default = JNil,
        Enum = [(KInt 9, ''nine''), (KInt 10, ''ten''), (KStr ''1a'', ''other'')],
        Constraints = Map.empty\<rparr> = [KInt 10, KStr ''1a'', KInt 9]"
  by code_simp

theorem ToSchema_enum_sorted_witness:
  "\<exists>frag keys. ToSchema \<lparr>Required = True, FieldName = ''size'', Type = ''string'',
        Details = ''Size'', Default = JNil,
        Enum = [(KInt 9, ''nine''), (KInt 10, ''ten''), (KStr ''1a'', ''other'')],
        Constraints = Map.empty\<rparr> = Some frag \<and>
     frag ''enum'' = Some (JArr (map key_value keys)) \<and>
     sorted (map Sprintf_v keys) \<and>
     mset keys = mset [KInt 9, KInt 10, KStr ''1a''] \<and>
     frag ''enum'' = Some (JArr [JInt 10, JStr ''1a'', JInt 9]) \<and>
     frag ''pattern'' = None"
proof -
  let ?bv = "\<lparr>Required = True, FieldName = ''size'', Type = ''string'',
        Details = ''Size'', Default = JNil,
        Enum = [(KInt 9, ''nine''), (KInt 10, ''ten''), (KStr ''1a'', ''other'')],
        Constraints = Map.empty\<rparr>"
  have ne: "Enum ?bv \<noteq> []" by simp
  have other: "''pattern'' \<notin> {KeyTitle, KeyEnum, KeyDescription, KeyType, KeyDefault}"
    by (simp add: KeyTitle_def KeyEnum_def KeyDescription_def KeyType_def KeyDefault_def)
  from ToSchema_enum_sorted [of ?bv] ne other obtain frag keys where
    f: "ToSchema ?bv = Some frag" and
    k: "frag KeyEnum = Some (JArr (map key_value keys))" "sorted (map Sprintf_v keys)"
       "mset keys = mset (map fst (Enum ?bv))" and
    p: "frag ''pattern'' = Constraints ?bv ''pattern''"
    by blast
  have "frag KeyEnum = Some (JArr (map key_value (enumeration ?bv)))"
    using ToSchema_enum [OF f ne] .
  then have "frag ''enum'' = Some (JArr [JInt 10, JStr ''1a'', JInt 9])"
    unfolding enumeration_example by (simp add: KeyEnum_def)
  moreover from k have "frag ''enum'' = Some (JArr (map key_value keys))"
    "mset keys = mset [KInt 9, KInt 10, KStr ''1a'']"
    by (simp_all add: KeyEnum_def)
  moreover from p have "frag ''pattern'' = None" by simp
  ultimately show ?thesis using f k(2) by (intro exI conjI)
qed

text \<open>
  With an empty \<^verbatim>\<open>Enum\<close> the fragment still has an \<open>enum\<close> key when the constraints
  supply one.
\<close>

theorem ToSchema_enum_from_constraints:
  "ToSchema \<lparr>Required = False, FieldName = ''tier'', Type = ''string'',
        Details = ''The tier'', Default = JNil, Enum = [],
        Constraints = [''enum'' \<mapsto> JArr [JStr ''basic'', JStr ''premium'']]\<rparr> \<noteq> None \<and>
   the (ToSchema \<lparr>Required = False, FieldName = ''tier'', Type = ''string'',
        Details = ''The tier'', Default = JNil, Enum = [],
        Constraints = [''enum'' \<mapsto> JArr [JStr ''basic'', JStr ''premium'']]\<rparr>) ''enum''
     = Some (JArr [JStr ''basic'', JStr ''premium''])"
proof -
  let ?bv = "\<lparr>Required = False, FieldName = ''tier'', Type = ''string'',
        Details = ''The tier'', Default = JNil, Enum = [],
        Constraints = [''enum'' \<mapsto> JArr [JStr ''basic'', JStr ''premium'']]\<rparr>"
  obtain frag where f: "ToSchema ?bv = Some frag"
    using ToSchema_total by blast
  have "frag KeyEnum = Constraints ?bv KeyEnum"
    using ToSchema_no_enum [OF f] by simp
  then have "frag ''enum'' = Some (JArr [JStr ''basic'', JStr ''premium''])"
    by (simp add: KeyEnum_def)
  with f show ?thesis by simp
qed

section \<open>Properties of the defaulter\<close>








section \<open>Properties of the validator\<close>

lemma fold_multierror_Append:
  "fold (\<lambda>r allErrors. multierror_Append allErrors r) rs acc = acc @ rs"
  by (induction rs arbitrary: acc) (simp_all add: multierror_Append_def)

lemma Validate_engine_error:
  "eng schema parameters = Inl e \<Longrightarrow>
     ValidateVariablesAgainstSchema eng parameters schema = Some (EngineError e)"
  by (simp add: ValidateVariablesAgainstSchema_def)

lemma Validate_no_error:
  "ValidateVariablesAgainstSchema eng parameters schema = None \<longleftrightarrow>
     eng schema parameters = Inr []"
  by (simp add: ValidateVariablesAgainstSchema_def split: sum.splits)

lemma Validate_violations:
  "eng schema parameters = Inr rs \<Longrightarrow> rs \<noteq> [] \<Longrightarrow>
     ValidateVariablesAgainstSchema eng parameters schema =
       Some (MultiError rs SingleLineErrorFormatter)"
  by (simp add: ValidateVariablesAgainstSchema_def fold_multierror_Append)

text \<open>
  C2 (as amended): a processing error of the engine is returned as it is; the result is
  nil exactly when the engine reports no violation; otherwise the result is one
  \<^verbatim>\<open>multierror.Error\<close> whose format is the single-line formatter and whose messages are
  the strings of the reported violations, one for each, in the engine's order and
  unchanged, so that every message is a single line whenever the engine's strings are.
\<close>

theorem ValidateVariablesAgainstSchema_result:
  "(\<forall>e. eng schema parameters = Inl e \<longrightarrow>
      ValidateVariablesAgainstSchema eng parameters schema = Some (EngineError e)) \<and>
   (ValidateVariablesAgainstSchema eng parameters schema = None \<longleftrightarrow>
      eng schema parameters = Inr []) \<and>
   (\<forall>rs. eng schema parameters = Inr rs \<and> rs \<noteq> [] \<longrightarrow>
      ValidateVariablesAgainstSchema eng parameters schema =
        Some (MultiError rs SingleLineErrorFormatter))"
  using Validate_engine_error [of eng schema parameters]
    Validate_no_error [of eng parameters schema]
    Validate_violations [of eng schema parameters]
  by blast


theorem ValidateVariablesAgainstSchema_result_witness:
  "ValidateVariablesAgainstSchema (\<lambda>schema parameters. Inr [''size: size is required''])
     Map.empty [''required'' \<mapsto> JArr [JStr ''size'']]
     = Some (MultiError [''size: size is required''] SingleLineErrorFormatter) \<and>
   ValidateVariablesAgainstSchema (\<lambda>schema parameters. Inl ''schema is invalid'')
     Map.empty [''type'' \<mapsto> JInt 7]
     = Some (EngineError ''schema is invalid'')"
proof -
  have "ValidateVariablesAgainstSchema (\<lambda>schema parameters. Inr [''size: size is required''])
     Map.empty [''required'' \<mapsto> JArr [JStr ''size'']]
     = Some (MultiError [''size: size is required''] SingleLineErrorFormatter)"
    using ValidateVariablesAgainstSchema_result
      [of "\<lambda>schema parameters. Inr [''size: size is required'']"
          "[''required'' \<mapsto> JArr [JStr ''size'']]" Map.empty]
    by simp
  moreover have "ValidateVariablesAgainstSchema (\<lambda>schema parameters. Inl ''schema is invalid'')
     Map.empty [''type'' \<mapsto> JInt 7]
     = Some (EngineError ''schema is invalid'')"
    using ValidateVariablesAgainstSchema_result
      [of "\<lambda>schema parameters. Inl ''schema is invalid''" "[''type'' \<mapsto> JInt 7]" Map.empty]
    by simp
  ultimately show ?thesis by (intro conjI)
qed

text \<open>
  The messages are not made single-line: when the engine's string for a violation has a
  line break (here the violation is reported for a field whose name has one), so has the
  message in the aggregate.
\<close>

theorem ValidateVariablesAgainstSchema_multiline:
  "ValidateVariablesAgainstSchema
     (\<lambda>schema parameters.
        Inr [[CHR ''a'', CHR 0x0A, CHR ''b''] @ '': Invalid type. Expected: string, given: integer''])
     [[CHR ''a'', CHR 0x0A, CHR ''b''] \<mapsto> JInt 5]
     [''properties'' \<mapsto>
        JObj [[CHR ''a'', CHR 0x0A, CHR ''b''] \<mapsto> JObj [''type'' \<mapsto> JStr ''string'']]]
     = Some (MultiError
               [[CHR ''a'', CHR 0x0A, CHR ''b''] @ '': Invalid type. Expected: string, given: integer'']
               SingleLineErrorFormatter) \<and>
   \<not> list_all single_line
       (Errors (MultiError
               [[CHR ''a'', CHR 0x0A, CHR ''b''] @ '': Invalid type. Expected: string, given: integer'']
               SingleLineErrorFormatter))"
  by (simp add: ValidateVariablesAgainstSchema_def multierror_Append_def single_line_def)

section \<open>Properties of descriptor validation\<close>

lemma Validate_unfold:
  "Validate bv =
     (if list_all isSpace (FieldName bv) then [BlankField ''field_name''] else []) @
     (if Type bv \<in> {''string'', ''number'', ''integer'', ''boolean''} then []
      else [InvalidSchemaType ''type'']) @
     (if list_all isSpace (Details bv) then [BlankField ''details''] else [])"
  by (simp add: Validate_def ErrIfBlank_def ErrIfNotJSONSchemaType_def JsonTypeString_def
      JsonTypeNumeric_def JsonTypeInteger_def JsonTypeBoolean_def)

text \<open>
  C8: \<^verbatim>\<open>Validate\<close> returns, in one list, a blank-field error for \<open>field_name\<close> exactly
  when \<^verbatim>\<open>FieldName\<close> is empty or white space, an invalid-type error exactly when
  \<^verbatim>\<open>Type\<close> is none of string, number, integer, boolean, and a blank-field error for
  \<open>details\<close> exactly when \<^verbatim>\<open>Details\<close> is empty or white space; each is reported
  whatever the other fields are.
\<close>

theorem Validate_collects_all:
  "Validate bv =
     (if list_all isSpace (FieldName bv) then [BlankField ''field_name''] else []) @
     (if Type bv \<in> {''string'', ''number'', ''integer'', ''boolean''} then []
      else [InvalidSchemaType ''type'']) @
     (if list_all isSpace (Details bv) then [BlankField ''details''] else []) \<and>
   (BlankField ''field_name'' \<in> set (Validate bv) \<longleftrightarrow> list_all isSpace (FieldName bv)) \<and>
   (InvalidSchemaType ''type'' \<in> set (Validate bv) \<longleftrightarrow>
      Type bv \<notin> {''string'', ''number'', ''integer'', ''boolean''}) \<and>
   (BlankField ''details'' \<in> set (Validate bv) \<longleftrightarrow> list_all isSpace (Details bv)) \<and>
   (list_all isSpace (Details bv) \<longrightarrow> BlankField ''details'' \<in> set (Validate bv))"
proof -
  have u: "Validate bv =
     (if list_all isSpace (FieldName bv) then [BlankField ''field_name''] else []) @
     (if Type bv \<in> {''string'', ''number'', ''integer'', ''boolean''} then []
      else [InvalidSchemaType ''type'']) @
     (if list_all isSpace (Details bv) then [BlankField ''details''] else [])"
    by (rule Validate_unfold)
  have a: "BlankField ''field_name'' \<in> set (Validate bv) \<longleftrightarrow> list_all isSpace (FieldName bv)"
    unfolding u by simp
  have b: "InvalidSchemaType ''type'' \<in> set (Validate bv) \<longleftrightarrow>
      Type bv \<notin> {''string'', ''number'', ''integer'', ''boolean''}"
    unfolding u by simp
  have c: "BlankField ''details'' \<in> set (Validate bv) \<longleftrightarrow> list_all isSpace (Details bv)"
    unfolding u by simp
  from u a b c show ?thesis by blast
qed

theorem Validate_collects_all_witness:
  "Validate \<lparr>Required = False, FieldName = ''  '', Type = ''object'', Details = '''',
        Default = JNil, Enum = [], Constraints = Map.empty\<rparr>
     = [BlankField ''field_name'', InvalidSchemaType ''type'', BlankField ''details''] \<and>
   BlankField ''details'' \<in> set (Validate \<lparr>Required = True, FieldName = ''size'',
        Type = ''integer'', Details = '' '', Default = JInt 10, Enum = [],
        Constraints = Map.empty\<rparr>)"
proof -
  let ?bad = "\<lparr>Required = False, FieldName = ''  '', Type = ''object'', Details = '''',
        Default = JNil, Enum = [], Constraints = Map.empty\<rparr>"
  let ?blank = "\<lparr>Required = True, FieldName = ''size'',
        Type = ''integer'', Details = '' '', Default = JInt 10, Enum = [],
        Constraints = Map.empty\<rparr>"
  have "Validate ?bad
     = [BlankField ''field_name'', InvalidSchemaType ''type'', BlankField ''details'']"
    using Validate_collects_all [of ?bad] by (simp add: isSpace_def)
  moreover have "list_all isSpace (Details ?blank)" by (simp add: isSpace_def)
  then have "BlankField ''details'' \<in> set (Validate ?blank)"
    using Validate_collects_all [of ?blank] by blast
  ultimately show ?thesis by (intro conjI)
qed

section \<open>Properties of the schema document\<close>

lemma Add_set: "set (Add s x) = insert x (set s)"
  by (auto simp: Add_def)

lemma Add_distinct: "distinct s \<Longrightarrow> distinct (Add s x)"
  by (simp add: Add_def)

lemma find_snoc:
  "find P (xs @ [x]) =
     (case find P xs of Some y \<Rightarrow> Some y | None \<Rightarrow> if P x then Some x else None)"
  by (induction xs) simp_all

lemma collect_Some:
  "\<exists>props' req'. collect vs props req = Some (props', req') \<and>
     (\<forall>k. props' k =
        (case find (\<lambda>v. FieldName v = k) (rev vs) of
           None \<Rightarrow> props k
         | Some v \<Rightarrow> map_option JObj (ToSchema v))) \<and>
     set req' = set req \<union> FieldName ` {v \<in> set vs. Required v} \<and>
     (distinct req \<longrightarrow> distinct req')"
proof (induction vs arbitrary: props req)
  case Nil
  then show ?case by simp
next
  case (Cons v vs)
  obtain frag where f: "ToSchema v = Some frag"
    using ToSchema_total by blast
  let ?props = "props(FieldName v \<mapsto> JObj frag)"
  let ?req = "if Required v then Add req (FieldName v) else req"
  from Cons.IH [of ?props ?req] obtain props' req' where
    c: "collect vs ?props ?req = Some (props', req')" and
    p: "\<forall>k. props' k =
        (case find (\<lambda>v. FieldName v = k) (rev vs) of
           None \<Rightarrow> ?props k
         | Some v \<Rightarrow> map_option JObj (ToSchema v))" and
    r: "set req' = set ?req \<union> FieldName ` {v \<in> set vs. Required v}" and
    d: "distinct ?req \<longrightarrow> distinct req'"
    by blast
  have "collect (v # vs) props req = Some (props', req')"
    using f c by simp
  moreover have "\<forall>k. props' k =
        (case find (\<lambda>v. FieldName v = k) (rev (v # vs)) of
           None \<Rightarrow> props k
         | Some v \<Rightarrow> map_option JObj (ToSchema v))"
  proof
    fix k
    show "props' k =
        (case find (\<lambda>v. FieldName v = k) (rev (v # vs)) of
           None \<Rightarrow> props k
         | Some v \<Rightarrow> map_option JObj (ToSchema v))"
      using p f by (cases "find (\<lambda>v. FieldName v = k) (rev vs)") (simp_all add: find_snoc)
  qed
  moreover have "set req' = set req \<union> FieldName ` {w \<in> set (v # vs). Required w}"
    using r by (auto simp: Add_set)
  moreover have "distinct req \<longrightarrow> distinct req'"
    using d by (simp add: Add_distinct)
  ultimately show ?case by blast
qed


lemma CreateJsonSchema_Some:
  "\<exists>props req.
     CreateJsonSchema vs =
       Some (if req \<noteq> []
             then [''$schema'' \<mapsto> JStr ''http://json-schema.org/draft-04/schema#'',
                   ''type'' \<mapsto> JStr ''object'', ''properties'' \<mapsto> JObj props,
                   ''required'' \<mapsto> JArr (map JStr req)]
             else [''$schema'' \<mapsto> JStr ''http://json-schema.org/draft-04/schema#'',
                   ''type'' \<mapsto> JStr ''object'', ''properties'' \<mapsto> JObj props]) \<and>
     (\<forall>k. props k =
        (case find (\<lambda>v. FieldName v = k) (rev vs) of
           None \<Rightarrow> None
         | Some v \<Rightarrow> map_option JObj (ToSchema v))) \<and>
     set req = FieldName ` {v \<in> set vs. Required v} \<and> distinct req"
proof -
  from collect_Some [of vs Map.empty NewStringSet] obtain props req where
    c: "collect vs Map.empty NewStringSet = Some (props, req)" and
    p: "\<forall>k. props k =
        (case find (\<lambda>v. FieldName v = k) (rev vs) of
           None \<Rightarrow> Map.empty k
         | Some v \<Rightarrow> map_option JObj (ToSchema v))" and
    r: "set req = set NewStringSet \<union> FieldName ` {v \<in> set vs. Required v}" and
    d: "distinct NewStringSet \<longrightarrow> distinct req"
    by blast
  have "CreateJsonSchema vs =
       Some (if req \<noteq> []
             then [''$schema'' \<mapsto> JStr ''http://json-schema.org/draft-04/schema#'',
                   ''type'' \<mapsto> JStr ''object'', ''properties'' \<mapsto> JObj props,
                   ''required'' \<mapsto> JArr (map JStr req)]
             else [''$schema'' \<mapsto> JStr ''http://json-schema.org/draft-04/schema#'',
                   ''type'' \<mapsto> JStr ''object'', ''properties'' \<mapsto> JObj props])"
    using c by (simp add: CreateJsonSchema_def IsEmpty_def ToSlice_def)
  moreover have "\<forall>k. props k =
        (case find (\<lambda>v. FieldName v = k) (rev vs) of
           None \<Rightarrow> None
         | Some v \<Rightarrow> map_option JObj (ToSchema v))"
    using p by simp
  moreover have "set req = FieldName ` {v \<in> set vs. Required v}"
    using r by (simp add: NewStringSet_def)
  moreover have "distinct req"
    using d by (simp add: NewStringSet_def)
  ultimately show ?thesis by (intro exI conjI)
qed

lemma find_rev_distinct:
  "distinct (map f vs) \<Longrightarrow> v \<in> set vs \<Longrightarrow> find (\<lambda>w. f w = f v) (rev vs) = Some v"
proof (induction vs)
  case Nil
  then show ?case by simp
next
  case (Cons a vs)
  show ?case
  proof (cases "v \<in> set vs")
    case True
    with Cons have "find (\<lambda>w. f w = f v) (rev vs) = Some v" by simp
    then show ?thesis by (simp add: find_snoc)
  next
    case False
    with Cons.prems have av: "a = v" by simp
    from Cons.prems have "f a \<notin> f ` set vs" by simp
    then have "find (\<lambda>w. f w = f a) (rev vs) = None"
      by (fastforce simp: find_None_iff image_iff)
    with av show ?thesis by (simp add: find_snoc)
  qed
qed

lemma find_app:
  "find P (xs @ ys) = (case find P xs of None \<Rightarrow> find P ys | Some x \<Rightarrow> Some x)"
  by (induction xs) simp_all

lemma find_none_image: "k \<notin> f ` set ys \<Longrightarrow> find (\<lambda>w. f w = k) (rev ys) = None"
  by (fastforce simp: find_None_iff image_iff)

lemma find_rev_last:
  "f v \<notin> f ` set ys \<Longrightarrow> find (\<lambda>w. f w = f v) (rev (xs @ v # ys)) = Some v"
  by (simp add: find_app find_none_image)

lemma find_rev_dom:
  "(find (\<lambda>w. f w = k) (rev vs) \<noteq> None) = (k \<in> f ` set vs)"
proof
  assume "find (\<lambda>w. f w = k) (rev vs) \<noteq> None"
  then obtain w where "w \<in> set vs" "f w = k"
    by (auto simp: find_None_iff)
  then show "k \<in> f ` set vs" by blast
next
  assume "k \<in> f ` set vs"
  then obtain w where "w \<in> set vs" "f w = k" by blast
  then show "find (\<lambda>w. f w = k) (rev vs) \<noteq> None"
    by (auto simp: find_None_iff)
qed

lemma count_list_distinct: "distinct xs \<Longrightarrow> count_list xs k = (if k \<in> set xs then 1 else 0)"
  by (induction xs) auto


lemma JArr_names_inj: "JArr (map JStr names) = JArr (map JStr req) \<Longrightarrow> names = req"
  by (simp add: inj_map_eq_map inj_on_def)

text \<open>
  What \<^verbatim>\<open>CreateJsonSchema\<close> returns, in one statement for the theorems below.
\<close>

lemma CreateJsonSchema_shape:
  "\<exists>doc props req.
     CreateJsonSchema vs = Some doc \<and>
     doc ''$schema'' = Some (JStr ''http://json-schema.org/draft-04/schema#'') \<and>
     doc ''type'' = Some (JStr ''object'') \<and>
     doc ''properties'' = Some (JObj props) \<and>
     dom doc \<subseteq> {''$schema'', ''type'', ''properties'', ''required''} \<and>
     doc ''required'' = (if req = [] then None else Some (JArr (map JStr req))) \<and>
     (\<forall>k. props k =
        (case find (\<lambda>v. FieldName v = k) (rev vs) of
           None \<Rightarrow> None
         | Some v \<Rightarrow> map_option JObj (ToSchema v))) \<and>
     set req = FieldName ` {v \<in> set vs. Required v} \<and> distinct req"
proof -
  from CreateJsonSchema_Some [of vs] obtain props req where
    c: "CreateJsonSchema vs =
       Some (if req \<noteq> []
             then [''$schema'' \<mapsto> JStr ''http://json-schema.org/draft-04/schema#'',
                   ''type'' \<mapsto> JStr ''object'', ''properties'' \<mapsto> JObj props,
                   ''required'' \<mapsto> JArr (map JStr req)]
             else [''$schema'' \<mapsto> JStr ''http://json-schema.org/draft-04/schema#'',
                   ''type'' \<mapsto> JStr ''object'', ''properties'' \<mapsto> JObj props])" and
    p: "\<forall>k. props k =
        (case find (\<lambda>v. FieldName v = k) (rev vs) of
           None \<Rightarrow> None
         | Some v \<Rightarrow> map_option JObj (ToSchema v))" and
    r: "set req = FieldName ` {v \<in> set vs. Required v}" and
    d: "distinct req"
    by blast
  define doc where "doc =
       (if req \<noteq> []
             then [''$schema'' \<mapsto> JStr ''http://json-schema.org/draft-04/schema#'',
                   ''type'' \<mapsto> JStr ''object'', ''properties'' \<mapsto> JObj props,
                   ''required'' \<mapsto> JArr (map JStr req)]
             else [''$schema'' \<mapsto> JStr ''http://json-schema.org/draft-04/schema#'',
                   ''type'' \<mapsto> JStr ''object'', ''properties'' \<mapsto> JObj props])"
  have "CreateJsonSchema vs = Some doc"
    using c by (simp only: doc_def)
  moreover have "doc ''$schema'' = Some (JStr ''http://json-schema.org/draft-04/schema#'')"
    by (simp add: doc_def)
  moreover have "doc ''type'' = Some (JStr ''object'')"
    by (simp add: doc_def)
  moreover have "doc ''properties'' = Some (JObj props)"
    by (simp add: doc_def)
  moreover have "dom doc \<subseteq> {''$schema'', ''type'', ''properties'', ''required''}"
    by (auto simp: doc_def split: if_splits)
  moreover have "doc ''required'' = (if req = [] then None else Some (JArr (map JStr req)))"
    by (simp add: doc_def)
  ultimately show ?thesis
    using p r d by (intro exI conjI)
qed


text \<open>
  C5 (as amended): \<^verbatim>\<open>CreateJsonSchema\<close> never panics. Its document has \<open>$schema\<close> set to
  the draft-04 identifier, \<open>type\<close> set to \<open>object\<close>, and \<open>properties\<close>, whose keys are
  the field names of the descriptors and which maps each field name to the fragment of
  the last descriptor of that name, hence each descriptor's name to its own fragment
  when the names are distinct. The document has no other key but \<open>required\<close>, which is
  present exactly when some descriptor is required and then lists, without duplicates,
  exactly the names of the required descriptors (a set that does not depend on the order
  of the descriptors). With no descriptors, \<open>properties\<close> is empty and \<open>required\<close> is
  absent.
\<close>

theorem CreateJsonSchema_document:
  "\<exists>doc props.
     CreateJsonSchema vs = Some doc \<and>
     doc ''$schema'' = Some (JStr ''http://json-schema.org/draft-04/schema#'') \<and>
     doc ''type'' = Some (JStr ''object'') \<and>
     doc ''properties'' = Some (JObj props) \<and>
     dom doc \<subseteq> {''$schema'', ''type'', ''properties'', ''required''} \<and>
     dom props = FieldName ` set vs \<and>
     (\<forall>k. props k =
        (case find (\<lambda>v. FieldName v = k) (rev vs) of
           None \<Rightarrow> None
         | Some v \<Rightarrow> map_option JObj (ToSchema v))) \<and>
     (distinct (map FieldName vs) \<longrightarrow>
        (\<forall>v \<in> set vs. props (FieldName v) = map_option JObj (ToSchema v))) \<and>
     (doc ''required'' \<noteq> None \<longleftrightarrow> (\<exists>v \<in> set vs. Required v)) \<and>
     (\<forall>names. doc ''required'' = Some (JArr (map JStr names)) \<longrightarrow>
        distinct names \<and> set names = set (map FieldName (filter Required vs))) \<and>
     ((\<exists>v \<in> set vs. Required v) \<longrightarrow>
        (\<exists>names. doc ''required'' = Some (JArr (map JStr names)))) \<and>
     (vs = [] \<longrightarrow> props = Map.empty \<and> doc ''required'' = None)"
proof -
  from CreateJsonSchema_shape [of vs] obtain doc props req where
    c: "CreateJsonSchema vs = Some doc" and
    s: "doc ''$schema'' = Some (JStr ''http://json-schema.org/draft-04/schema#'')" and
    t: "doc ''type'' = Some (JStr ''object'')" and
    pr: "doc ''properties'' = Some (JObj props)" and
    dd: "dom doc \<subseteq> {''$schema'', ''type'', ''properties'', ''required''}" and
    rq: "doc ''required'' = (if req = [] then None else Some (JArr (map JStr req)))" and
    p: "\<forall>k. props k =
        (case find (\<lambda>v. FieldName v = k) (rev vs) of
           None \<Rightarrow> None
         | Some v \<Rightarrow> map_option JObj (ToSchema v))" and
    r: "set req = FieldName ` {v \<in> set vs. Required v}" and
    d: "distinct req"
    by blast
  have dom: "dom props = FieldName ` set vs"
  proof (rule set_eqI)
    fix k
    have "(props k \<noteq> None) = (find (\<lambda>v. FieldName v = k) (rev vs) \<noteq> None)"
      using p ToSchema_total by (auto split: option.splits)
    also have "\<dots> = (k \<in> FieldName ` set vs)"
      by (rule find_rev_dom)
    finally show "(k \<in> dom props) = (k \<in> FieldName ` set vs)"
      by (simp only: domIff)
  qed
  have own: "distinct (map FieldName vs) \<longrightarrow>
        (\<forall>v \<in> set vs. props (FieldName v) = map_option JObj (ToSchema v))"
    using p by (simp add: find_rev_distinct)
  have nonempty: "(req \<noteq> []) = (\<exists>v \<in> set vs. Required v)"
  proof -
    have "(req \<noteq> []) = (set req \<noteq> {})" by simp
    also have "\<dots> = (\<exists>v \<in> set vs. Required v)" unfolding r by blast
    finally show ?thesis .
  qed
  have pres: "doc ''required'' \<noteq> None \<longleftrightarrow> (\<exists>v \<in> set vs. Required v)"
    using rq nonempty by (cases "req = []") simp_all
  have lst: "\<forall>names. doc ''required'' = Some (JArr (map JStr names)) \<longrightarrow>
        distinct names \<and> set names = set (map FieldName (filter Required vs))"
  proof (intro allI impI)
    fix names
    assume "doc ''required'' = Some (JArr (map JStr names))"
    with rq have "JArr (map JStr names) = JArr (map JStr req)"
      by (simp split: if_splits)
    then have "names = req" by (rule JArr_names_inj)
    with r d show "distinct names \<and> set names = set (map FieldName (filter Required vs))"
      by simp
  qed
  have ex: "(\<exists>v \<in> set vs. Required v) \<longrightarrow>
        (\<exists>names. doc ''required'' = Some (JArr (map JStr names)))"
    using rq nonempty by (cases "req = []") auto
  have emp: "vs = [] \<longrightarrow> props = Map.empty \<and> doc ''required'' = None"
  proof
    assume e: "vs = []"
    then have "props = Map.empty" using p by (intro ext) simp
    moreover have "doc ''required'' = None" using pres e by simp
    ultimately show "props = Map.empty \<and> doc ''required'' = None" by simp
  qed
  from c s t pr dd dom p own pres lst ex emp show ?thesis
    by (intro exI conjI)
qed

theorem CreateJsonSchema_document_witness:
  "\<exists>doc props names.
     CreateJsonSchema
       [\<lparr>Required = True, FieldName = ''size'', Type = ''integer'', Details = ''Size in GB'',
          Default = JNil, Enum = [], Constraints = Map.empty\<rparr>,
        \<lparr>Required = False, FieldName = ''region'', Type = ''string'', Details = ''Region'',
          Default = JStr ''us'', Enum = [], Constraints = Map.empty\<rparr>] = Some doc \<and>
     doc ''properties'' = Some (JObj props) \<and>
     props ''size'' = map_option JObj (ToSchema
        \<lparr>Required = True, FieldName = ''size'', Type = ''integer'', Details = ''Size in GB'',
          Default = JNil, Enum = [], Constraints = Map.empty\<rparr>) \<and>
     dom props = {''size'', ''region''} \<and>
     doc ''required'' = Some (JArr (map JStr names)) \<and>
     distinct names \<and> set names = {''size''}"
proof -
  let ?size = "\<lparr>Required = True, FieldName = ''size'', Type = ''integer'',
          Details = ''Size in GB'', Default = JNil, Enum = [], Constraints = Map.empty\<rparr>"
  let ?region = "\<lparr>Required = False, FieldName = ''region'', Type = ''string'',
          Details = ''Region'', Default = JStr ''us'', Enum = [], Constraints = Map.empty\<rparr>"
  let ?vs = "[?size, ?region]"
  from CreateJsonSchema_document [of ?vs] obtain doc props where
    c: "CreateJsonSchema ?vs = Some doc" and
    pr: "doc ''properties'' = Some (JObj props)" and
    dom: "dom props = FieldName ` set ?vs" and
    own: "distinct (map FieldName ?vs) \<longrightarrow>
        (\<forall>v \<in> set ?vs. props (FieldName v) = map_option JObj (ToSchema v))" and
    lst: "\<forall>names. doc ''required'' = Some (JArr (map JStr names)) \<longrightarrow>
        distinct names \<and> set names = set (map FieldName (filter Required ?vs))" and
    ex: "(\<exists>v \<in> set ?vs. Required v) \<longrightarrow>
        (\<exists>names. doc ''required'' = Some (JArr (map JStr names)))"
    by (elim exE conjE) (rule that)
  have "distinct (map FieldName ?vs)" by simp
  with own have "\<forall>v \<in> set ?vs. props (FieldName v) = map_option JObj (ToSchema v)" by blast
  then have a: "props ''size'' = map_option JObj (ToSchema ?size)" by simp
  from dom have b: "dom props = {''size'', ''region''}" by simp
  have "\<exists>v \<in> set ?vs. Required v" by simp
  with ex obtain names where n: "doc ''required'' = Some (JArr (map JStr names))" by blast
  with lst have "distinct names \<and> set names = set (map FieldName (filter Required ?vs))"
    by blast
  then have "distinct names" "set names = {''size''}" by simp_all
  with c pr a b n show ?thesis by (intro exI conjI)
qed

text \<open>
  Two descriptors of one name: the entry under \<open>properties\<close> is the second one's
  fragment, with the second one's description, and not the fragment of the first.
\<close>

theorem CreateJsonSchema_shared_name:
  "entries (the (the (CreateJsonSchema
       [\<lparr>Required = False, FieldName = ''name'', Type = ''string'', Details = ''First'',
          Default = JNil, Enum = [], Constraints = Map.empty\<rparr>,
        \<lparr>Required = False, FieldName = ''name'', Type = ''string'', Details = ''Second'',
          Default = JNil, Enum = [], Constraints = Map.empty\<rparr>]) ''properties'')) ''name''
     \<noteq> map_option JObj (ToSchema
        \<lparr>Required = False, FieldName = ''name'', Type = ''string'', Details = ''First'',
          Default = JNil, Enum = [], Constraints = Map.empty\<rparr>)"
proof -
  let ?a = "\<lparr>Required = False, FieldName = ''name'', Type = ''string'', Details = ''First'',
          Default = JNil, Enum = [], Constraints = Map.empty\<rparr>"
  let ?b = "\<lparr>Required = False, FieldName = ''name'', Type = ''string'', Details = ''Second'',
          Default = JNil, Enum = [], Constraints = Map.empty\<rparr>"
  from CreateJsonSchema_shape [of "[?a, ?b]"] obtain doc props where
    c: "CreateJsonSchema [?a, ?b] = Some doc" and
    pr: "doc ''properties'' = Some (JObj props)" and
    p: "\<forall>k. props k =
        (case find (\<lambda>v. FieldName v = k) (rev [?a, ?b]) of
           None \<Rightarrow> None
         | Some v \<Rightarrow> map_option JObj (ToSchema v))"
    by blast
  obtain fa where fa: "ToSchema ?a = Some fa" using ToSchema_total by blast
  obtain fb where fb: "ToSchema ?b = Some fb" using ToSchema_total by blast
  have "fa KeyDescription = Some (JStr ''First'')"
    using ToSchema_description [OF fa] by simp
  moreover have "fb KeyDescription = Some (JStr ''Second'')"
    using ToSchema_description [OF fb] by simp
  ultimately have "fb \<noteq> fa" by auto
  from p have "props ''name'' = map_option JObj (ToSchema ?b)" by simp
  with fb have "props ''name'' = Some (JObj fb)" by simp
  with \<open>fb \<noteq> fa\<close> have "props ''name'' \<noteq> map_option JObj (ToSchema ?a)"
    using fa by simp
  with c pr show ?thesis by simp
qed

text \<open>
  C10: whatever descriptors come before it, a descriptor that no later descriptor shares
  its name with has its fragment under \<open>properties\<close>, so of several descriptors of one
  name the last one's fragment is kept. That name occurs at most once in the
  \<open>required\<close> list, and exactly once as soon as any descriptor of that name is required.
\<close>

theorem CreateJsonSchema_duplicates:
  "\<exists>doc props.
     CreateJsonSchema (xs @ v # ys) = Some doc \<and>
     doc ''properties'' = Some (JObj props) \<and>
     (FieldName v \<notin> FieldName ` set ys \<longrightarrow>
        props (FieldName v) = map_option JObj (ToSchema v)) \<and>
     (\<forall>names. doc ''required'' = Some (JArr (map JStr names)) \<longrightarrow>
        count_list names (FieldName v) \<le> 1) \<and>
     ((\<exists>w \<in> set (xs @ v # ys). FieldName w = FieldName v \<and> Required w) \<longrightarrow>
        (\<exists>names. doc ''required'' = Some (JArr (map JStr names)) \<and>
           count_list names (FieldName v) = 1))"
proof -
  let ?vs = "xs @ v # ys"
  from CreateJsonSchema_shape [of ?vs] obtain doc props req where
    c: "CreateJsonSchema ?vs = Some doc" and
    pr: "doc ''properties'' = Some (JObj props)" and
    rq: "doc ''required'' = (if req = [] then None else Some (JArr (map JStr req)))" and
    p: "\<forall>k. props k =
        (case find (\<lambda>v. FieldName v = k) (rev ?vs) of
           None \<Rightarrow> None
         | Some v \<Rightarrow> map_option JObj (ToSchema v))" and
    r: "set req = FieldName ` {v \<in> set ?vs. Required v}" and
    d: "distinct req"
    by blast
  have last: "FieldName v \<notin> FieldName ` set ys \<longrightarrow>
        props (FieldName v) = map_option JObj (ToSchema v)"
  proof
    assume "FieldName v \<notin> FieldName ` set ys"
    then have "find (\<lambda>w. FieldName w = FieldName v) (rev ?vs) = Some v"
      by (rule find_rev_last)
    with p show "props (FieldName v) = map_option JObj (ToSchema v)" by simp
  qed
  have once: "\<forall>names. doc ''required'' = Some (JArr (map JStr names)) \<longrightarrow>
        count_list names (FieldName v) \<le> 1"
  proof (intro allI impI)
    fix names
    assume "doc ''required'' = Some (JArr (map JStr names))"
    with rq have "JArr (map JStr names) = JArr (map JStr req)"
      by (simp split: if_splits)
    then have "names = req" by (rule JArr_names_inj)
    with d show "count_list names (FieldName v) \<le> 1"
      by (simp add: count_list_distinct)
  qed
  have any: "(\<exists>w \<in> set ?vs. FieldName w = FieldName v \<and> Required w) \<longrightarrow>
        (\<exists>names. doc ''required'' = Some (JArr (map JStr names)) \<and>
           count_list names (FieldName v) = 1)"
  proof
    assume "\<exists>w \<in> set ?vs. FieldName w = FieldName v \<and> Required w"
    then obtain w where "w \<in> set ?vs" "FieldName w = FieldName v" "Required w" by blast
    then have "FieldName v \<in> FieldName ` {v \<in> set ?vs. Required v}"
      by (metis (mono_tags, lifting) imageI mem_Collect_eq)
    then have m: "FieldName v \<in> set req" using r by simp
    then have "req \<noteq> []" by auto
    with rq have "doc ''required'' = Some (JArr (map JStr req))" by simp
    moreover have "count_list req (FieldName v) = 1"
      using d m by (simp add: count_list_distinct)
    ultimately show "\<exists>names. doc ''required'' = Some (JArr (map JStr names)) \<and>
           count_list names (FieldName v) = 1" by blast
  qed
  from c pr last once any show ?thesis
    by (intro exI conjI)
qed


theorem CreateJsonSchema_duplicates_witness:
  "\<exists>doc props names.
     CreateJsonSchema
       ([\<lparr>Required = True, FieldName = ''name'', Type = ''string'', Details = ''First'',
           Default = JNil, Enum = [], Constraints = Map.empty\<rparr>]
        @ \<lparr>Required = False, FieldName = ''name'', Type = ''string'', Details = ''Second'',
           Default = JNil, Enum = [], Constraints = Map.empty\<rparr>
        # [\<lparr>Required = False, FieldName = ''zone'', Type = ''string'', Details = ''Zone'',
           Default = JNil, Enum = [], Constraints = Map.empty\<rparr>]) = Some doc \<and>
     doc ''properties'' = Some (JObj props) \<and>
     props ''name'' = map_option JObj (ToSchema
        \<lparr>Required = False, FieldName = ''name'', Type = ''string'', Details = ''Second'',
           Default = JNil, Enum = [], Constraints = Map.empty\<rparr>) \<and>
     doc ''required'' = Some (JArr (map JStr names)) \<and>
     count_list names ''name'' = 1"
proof -
  let ?a = "\<lparr>Required = True, FieldName = ''name'', Type = ''string'', Details = ''First'',
           Default = JNil, Enum = [], Constraints = Map.empty\<rparr>"
  let ?b = "\<lparr>Required = False, FieldName = ''name'', Type = ''string'', Details = ''Second'',
           Default = JNil, Enum = [], Constraints = Map.empty\<rparr>"
  let ?z = "\<lparr>Required = False, FieldName = ''zone'', Type = ''string'', Details = ''Zone'',
           Default = JNil, Enum = [], Constraints = Map.empty\<rparr>"
  from CreateJsonSchema_duplicates [of "[?a]" ?b "[?z]"] obtain doc props where
    c: "CreateJsonSchema ([?a] @ ?b # [?z]) = Some doc" and
    pr: "doc ''properties'' = Some (JObj props)" and
    last: "FieldName ?b \<notin> FieldName ` set [?z] \<longrightarrow>
        props (FieldName ?b) = map_option JObj (ToSchema ?b)" and
    any: "(\<exists>w \<in> set ([?a] @ ?b # [?z]). FieldName w = FieldName ?b \<and> Required w) \<longrightarrow>
        (\<exists>names. doc ''required'' = Some (JArr (map JStr names)) \<and>
           count_list names (FieldName ?b) = 1)"
    by blast
  have "FieldName ?b \<notin> FieldName ` set [?z]" by simp
  with last have a: "props ''name'' = map_option JObj (ToSchema ?b)" by simp
  have "\<exists>w \<in> set ([?a] @ ?b # [?z]). FieldName w = FieldName ?b \<and> Required w" by simp
  with any obtain names where
    "doc ''required'' = Some (JArr (map JStr names))" "count_list names (FieldName ?b) = 1"
    by blast
  then have "doc ''required'' = Some (JArr (map JStr names))" "count_list names ''name'' = 1"
    by simp_all
  with c pr a show ?thesis by (intro exI conjI)
qed

text \<open>\<^verbatim>\<open>ValidateVariables\<close> builds the schema, which cannot panic, and validates against it.\<close>

lemma ValidateVariables_total:
  "\<exists>schema. CreateJsonSchema variables = Some schema \<and>
     ValidateVariables eng parameters variables =
       Some (ValidateVariablesAgainstSchema eng parameters schema)"
proof -
  obtain schema where "CreateJsonSchema variables = Some schema"
    using CreateJsonSchema_shape [of variables] by (elim exE conjE)
  then show ?thesis by (simp add: ValidateVariables_def)
qed

section \<open>Which objects the operations write\<close>

lemma keeps_refl: "keeps n s s"
  by (simp add: keeps_def)

lemma keeps_trans: "keeps n s s' \<Longrightarrow> keeps n s' s'' \<Longrightarrow> keeps n s s''"
  by (auto simp: keeps_def)

lemma keeps_mono: "keeps n s s' \<Longrightarrow> m \<le> n \<Longrightarrow> keeps m s s'"
  by (auto simp: keeps_def)

lemma alloc_keeps:
  "alloc ob s = (a, s') \<Longrightarrow>
     a = next_addr s \<and> next_addr s' = Suc (next_addr s) \<and> keeps (next_addr s) s s'"
  by (auto simp: alloc_def keeps_def)

lemma map_assign_keeps:
  "map_assign (Some a) k v s = Some s' \<Longrightarrow> n \<le> a \<Longrightarrow> keeps n s s'"
  by (auto simp: map_assign_def keeps_def split: option.splits obj.splits)

lemma map_assign_next:
  "map_assign r k v s = Some s' \<Longrightarrow> next_addr s' = next_addr s"
  by (auto simp: map_assign_def split: option.splits obj.splits)

lemma map_assign_all_keeps:
  "map_assign_all a src s = Some s' \<Longrightarrow> n \<le> a \<Longrightarrow> keeps n s s'"
  by (auto simp: map_assign_all_def keeps_def split: option.splits obj.splits)

lemma cond_assign_keeps:
  "(if c then map_assign (Some a) k v s else Some s) = Some s' \<Longrightarrow> n \<le> a \<Longrightarrow> keeps n s s'"
  by (cases c) (auto simp: keeps_refl map_assign_keeps)

lemma title_assign_keeps:
  "(if c then Option.bind lbl (\<lambda>label. map_assign (Some a) k (f label) s) else Some s) = Some s'
     \<Longrightarrow> n \<le> a \<Longrightarrow> keeps n s s'"
  by (cases c) (auto simp: keeps_refl bind_eq_Some_conv intro: map_assign_keeps)

lemma ToSchema_st_keeps:
  assumes "ToSchema_st bv s0 = Some (r, s')"
  shows "r = next_addr s0 \<and> keeps (next_addr s0) s0 s'"
proof -
  define schema where "schema = next_addr s0"
  define s1 where "s1 = snd (alloc (OMap Map.empty) s0)"
  have al: "alloc (OMap Map.empty) s0 = (schema, s1)"
    by (simp add: schema_def s1_def alloc_def)
  have k1: "keeps schema s0 s1"
    using alloc_keeps [OF al] by (simp add: schema_def)
  from assms have "r = schema \<and> keeps r s1 s'"
    unfolding ToSchema_st_def al
    apply (clarsimp simp: bind_eq_Some_conv)
    apply (drule title_assign_keeps [OF _ order_refl])
    apply (drule map_assign_all_keeps [OF _ order_refl])
    apply (drule cond_assign_keeps [OF _ order_refl])+
    apply (blast intro: keeps_trans)
    done
  with k1 show ?thesis
    by (auto simp: schema_def intro: keeps_trans)
qed

lemma keeps_next: "keeps n s s' \<Longrightarrow> next_addr s \<le> next_addr s'"
  by (simp add: keeps_def)

lemma CreateJsonSchema_body_keeps:
  assumes "CreateJsonSchema_body props elem req s = Some (req', s')"
    and "m \<le> next_addr s" and "m \<le> props"
  shows "keeps m s s'"
proof -
  define s1 where "s1 = snd (alloc (OVar elem) s)"
  have al: "alloc (OVar elem) s = (next_addr s, s1)"
    by (simp add: s1_def alloc_def)
  have k1: "keeps m s s1"
    using alloc_keeps [OF al] assms(2) by (blast intro: keeps_mono)
  have n1: "m \<le> next_addr s1"
    using keeps_next [OF k1] assms(2) by simp
  from assms(1) have "keeps m s1 s'"
    unfolding CreateJsonSchema_body_def al
    apply (clarsimp simp: bind_eq_Some_conv)
    apply (drule ToSchema_st_keeps)
    apply (drule map_assign_keeps [OF _ assms(3)])
    apply (blast intro: keeps_trans keeps_mono n1)
    done
  with k1 show ?thesis by (blast intro: keeps_trans)
qed

lemma CreateJsonSchema_loop_keeps:
  "CreateJsonSchema_loop vs props i n req s = Some (req', s') \<Longrightarrow>
     m \<le> next_addr s \<Longrightarrow> m \<le> props \<Longrightarrow> keeps m s s'"
proof (induction n arbitrary: i req s)
  case 0
  then show ?case by (simp add: keeps_refl)
next
  case (Suc n)
  from Suc.prems(1) obtain elem req1 s1 where
    b: "CreateJsonSchema_body props elem req s = Some (req1, s1)" and
    rest: "CreateJsonSchema_loop vs props (Suc i) n req1 s1 = Some (req', s')"
    by (auto simp: bind_eq_Some_conv)
  have k1: "keeps m s s1"
    using CreateJsonSchema_body_keeps [OF b Suc.prems(2) Suc.prems(3)] .
  have "m \<le> next_addr s1"
    using keeps_next [OF k1] Suc.prems(2) by simp
  then have "keeps m s1 s'"
    using Suc.IH [OF rest _ Suc.prems(3)] by simp
  with k1 show ?case by (blast intro: keeps_trans)
qed

lemma CreateJsonSchema_st_keeps:
  assumes "CreateJsonSchema_st vs s0 = Some (r, s')"
  shows "keeps (next_addr s0) s0 s'"
proof -
  define properties where "properties = next_addr s0"
  define s1 where "s1 = snd (alloc (OMap Map.empty) s0)"
  have al: "alloc (OMap Map.empty) s0 = (properties, s1)"
    by (simp add: properties_def s1_def alloc_def)
  have k1: "keeps (next_addr s0) s0 s1"
    using alloc_keeps [OF al] by simp
  from assms obtain n required s2 where
    lp: "CreateJsonSchema_loop vs properties 0 n NewStringSet s1 = Some (required, s2)" and
    fin: "(if \<not> IsEmpty required
           then map_assign (Some (next_addr s2)) ''required''
                  (VAL (JArr (map JStr (ToSlice required))))
                  (snd (alloc (OMap [''$schema'' \<mapsto> VAL (JStr ''http://json-schema.org/draft-04/schema#''),
                       ''type'' \<mapsto> VAL (JStr ''object''),
                       ''properties'' \<mapsto> REF properties]) s2))
           else Some (snd (alloc (OMap [''$schema'' \<mapsto> VAL (JStr ''http://json-schema.org/draft-04/schema#''),
                       ''type'' \<mapsto> VAL (JStr ''object''),
                       ''properties'' \<mapsto> REF properties]) s2))) = Some s'"
    unfolding CreateJsonSchema_st_def al
    by (auto simp: bind_eq_Some_conv alloc_def split: if_splits)
  define s3 where "s3 = snd (alloc (OMap [''$schema'' \<mapsto> VAL (JStr ''http://json-schema.org/draft-04/schema#''),
                       ''type'' \<mapsto> VAL (JStr ''object''),
                       ''properties'' \<mapsto> REF properties]) s2)"
  have al3: "alloc (OMap [''$schema'' \<mapsto> VAL (JStr ''http://json-schema.org/draft-04/schema#''),
                       ''type'' \<mapsto> VAL (JStr ''object''),
                       ''properties'' \<mapsto> REF properties]) s2 = (next_addr s2, s3)"
    by (simp add: s3_def alloc_def)
  have n1: "next_addr s0 \<le> next_addr s1" using keeps_next [OF k1] .
  have k2: "keeps (next_addr s0) s1 s2"
    using CreateJsonSchema_loop_keeps [OF lp n1] by (simp add: properties_def)
  have n2: "next_addr s0 \<le> next_addr s2" using keeps_next [OF k2] n1 by simp
  have k3: "keeps (next_addr s0) s2 s3"
    using alloc_keeps [OF al3] n2 by (blast intro: keeps_mono)
  have k4: "keeps (next_addr s0) s3 s'"
    using cond_assign_keeps [OF fin [folded s3_def] n2] .
  from k1 k2 k3 k4 show ?thesis by (blast intro: keeps_trans)
qed

lemma ApplyDefaults_body_frame:
  "ApplyDefaults_body p v s = Some s' \<Longrightarrow>
     next_addr s' = next_addr s \<and> (\<forall>a. Some a \<noteq> p \<longrightarrow> objs s' a = objs s a)"
  by (auto simp: ApplyDefaults_body_def bind_eq_Some_conv map_assign_def
      split: if_splits option.splits obj.splits)

lemma ApplyDefaults_loop_frame:
  "ApplyDefaults_loop p vs i n s = Some s' \<Longrightarrow>
     next_addr s' = next_addr s \<and> (\<forall>a. Some a \<noteq> p \<longrightarrow> objs s' a = objs s a)"
proof (induction n arbitrary: i s)
  case 0
  then show ?case by simp
next
  case (Suc n)
  from Suc.prems obtain v s1 where
    st: "ApplyDefaults_body p v s = Some s1" and
    rest: "ApplyDefaults_loop p vs (Suc i) n s1 = Some s'"
    by (auto simp: bind_eq_Some_conv)
  from ApplyDefaults_body_frame [OF st] Suc.IH [OF rest] show ?case by simp
qed

lemma ApplyDefaults_st_frame:
  "ApplyDefaults_st p vs s = Some s' \<Longrightarrow>
     next_addr s' = next_addr s \<and> (\<forall>a. Some a \<noteq> p \<longrightarrow> objs s' a = objs s a)"
  by (auto simp: ApplyDefaults_st_def bind_eq_Some_conv dest: ApplyDefaults_loop_frame)

lemma Append_loop_keeps:
  "Append_loop a rs s = Some s' \<Longrightarrow> n \<le> a \<Longrightarrow> keeps n s s'"
proof (induction rs arbitrary: s)
  case Nil
  then show ?case by (simp add: keeps_refl)
next
  case (Cons r rs)
  from Cons.prems(1) obtain errs fmt where
    ob: "objs s a = Some (OMultiError errs fmt)" and
    rest: "Append_loop a rs
             (s\<lparr>objs := (objs s)(a \<mapsto> OMultiError (multierror_Append errs r) fmt)\<rparr>) = Some s'"
    by (auto split: option.splits obj.splits)
  have "keeps n s (s\<lparr>objs := (objs s)(a \<mapsto> OMultiError (multierror_Append errs r) fmt)\<rparr>)"
    using Cons.prems(2) by (simp add: keeps_def)
  with Cons.IH [OF rest Cons.prems(2)] show ?case by (blast intro: keeps_trans)
qed

lemma ValidateVariablesAgainstSchema_st_keeps:
  assumes "ValidateVariablesAgainstSchema_st eng p schema s = Some (e, s')"
  shows "keeps (next_addr s) s s'"
proof (cases "eng s schema p")
  case (Inl err)
  with assms show ?thesis
    by (simp add: ValidateVariablesAgainstSchema_st_def keeps_refl)
next
  case (Inr rs)
  show ?thesis
  proof (cases "rs = []")
    case True
    with assms Inr show ?thesis
      by (simp add: ValidateVariablesAgainstSchema_st_def keeps_refl)
  next
    case False
    define s1 where "s1 = snd (alloc (OMultiError [] SingleLineErrorFormatter) s)"
    have al: "alloc (OMultiError [] SingleLineErrorFormatter) s = (next_addr s, s1)"
      by (simp add: s1_def alloc_def)
    from assms Inr False have "Append_loop (next_addr s) rs s1 = Some s'"
      unfolding ValidateVariablesAgainstSchema_st_def al
      by (auto simp: bind_eq_Some_conv)
    then have "keeps (next_addr s) s1 s'"
      by (rule Append_loop_keeps) simp
    moreover have "keeps (next_addr s) s s1"
      using alloc_keeps [OF al] by simp
    ultimately show ?thesis by (blast intro: keeps_trans)
  qed
qed

lemma ValidateVariables_st_keeps:
  assumes "ValidateVariables_st eng p vs s = Some (e, s')"
  shows "keeps (next_addr s) s s'"
proof -
  from assms obtain schema s1 where
    c: "CreateJsonSchema_st vs s = Some (schema, s1)" and
    v: "ValidateVariablesAgainstSchema_st eng p schema s1 = Some (e, s')"
    by (auto simp: ValidateVariables_st_def bind_eq_Some_conv)
  have k1: "keeps (next_addr s) s s1" using CreateJsonSchema_st_keeps [OF c] .
  have "keeps (next_addr s1) s1 s'" using ValidateVariablesAgainstSchema_st_keeps [OF v] .
  then have "keeps (next_addr s) s1 s'"
    using keeps_next [OF k1] by (blast intro: keeps_mono)
  with k1 show ?thesis by (blast intro: keeps_trans)
qed

lemma Validate_st_same: "Validate_st bv s = Some (errs, s') \<Longrightarrow> s' = s"
  by (auto simp: Validate_st_def bind_eq_Some_conv)

lemma keeps_existing:
  "wf_store s \<Longrightarrow> keeps (next_addr s) s s' \<Longrightarrow> objs s a \<noteq> None \<Longrightarrow> objs s' a = objs s a"
proof -
  assume w: "wf_store s" and k: "keeps (next_addr s) s s'" and e: "objs s a \<noteq> None"
  from w e have "a < next_addr s"
    unfolding wf_store_def by (meson not_le)
  with k show ?thesis by (simp add: keeps_def)
qed

lemma wf_existing: "wf_store s \<Longrightarrow> objs s a = Some ob \<Longrightarrow> a < next_addr s"
  unfolding wf_store_def by (metis not_le option.distinct(1))

text \<open>
  The two models agree. On a well-formed store whose constraint map holds values, the
  store version of \<^verbatim>\<open>ToSchema\<close> returns, at a fresh address, a map with the
  contents of the fragment that \<^verbatim>\<open>ToSchema\<close> computes for the same descriptor; and
  the store version of \<^verbatim>\<open>ApplyDefaults\<close> leaves in the payload object what
  \<^verbatim>\<open>ApplyDefaults\<close> computes. In particular they return.
\<close>

lemma ToSchema_st_refines:
  assumes w: "wf_store s" and v: "get_var bv s = Some d"
    and c: "get_map (sConstraints d) s = Some (map_option VAL \<circ> cs)"
    and e: "get_enum (sEnum d) s = Some en"
  shows "\<exists>s' frag. ToSchema_st bv s = Some (next_addr s, s') \<and>
           ToSchema \<lparr>Required = sRequired d, FieldName = sFieldName d, Type = sType d,
                     Details = sDetails d, Default = sDefault d, Enum = en,
                     Constraints = cs\<rparr> = Some frag \<and>
           objs s' (next_addr s) = Some (OMap (map_option VAL \<circ> frag))"
proof -
  let ?bv = "\<lparr>Required = sRequired d, FieldName = sFieldName d, Type = sType d,
                     Details = sDetails d, Default = sDefault d, Enum = en,
                     Constraints = cs\<rparr>"
  from v have bv: "bv \<noteq> next_addr s"
    using wf_existing [OF w, of bv] by (auto simp: get_var_def split: option.splits obj.splits)
  have ca: "sConstraints d \<noteq> Some (next_addr s)"
    using c wf_existing [OF w, of "next_addr s"]
    by (auto simp: get_map_def split: option.splits obj.splits)
  have ea: "sEnum d \<noteq> Some (next_addr s)"
    using e wf_existing [OF w, of "next_addr s"]
    by (auto simp: get_enum_def split: option.splits obj.splits)
  obtain label where l: "fieldNameToLabel (sFieldName d) = Some label"
    using fieldNameToLabel_total by blast
  have m: "\<And>g h. map_option VAL \<circ> (g ++ h) = (map_option VAL \<circ> g) ++ (map_option VAL \<circ> h)"
    by (auto simp: fun_eq_iff map_add_def split: option.splits)
  have u: "\<And>g k x. map_option VAL \<circ> (g(k \<mapsto> x)) = (map_option VAL \<circ> g)(k \<mapsto> VAL x)"
    by (auto simp: fun_eq_iff)
  have z: "map_option VAL \<circ> Map.empty = Map.empty"
    by (auto simp: fun_eq_iff)
  note defs = ToSchema_st_def alloc_def get_var_def get_map_def get_enum_def
          map_assign_def map_assign_all_def l m u z enumeration_def ToSchema_def Let_def
  show ?thesis
  proof (cases "sConstraints d")
    case None
    with c have "map_option VAL \<circ> cs = Map.empty" by (simp add: get_map_def)
    then have "cs = Map.empty" by (auto simp: fun_eq_iff)
    with None v e bv ea show ?thesis
      by (cases "sEnum d") (simp_all add: defs split: option.splits obj.splits)
  next
    case (Some a)
    with c have "objs s a = Some (OMap (map_option VAL \<circ> cs))"
      by (auto simp: get_map_def split: option.splits obj.splits)
    with Some v e bv ca ea show ?thesis
      by (cases "sEnum d") (simp_all add: defs split: option.splits obj.splits)
  qed
qed

lemma ApplyDefaults_loop_refines:
  assumes "objs s p = Some (OMap (map_option VAL \<circ> m))" and "get_slice a s = Some ds"
    and "p \<noteq> a" and "i + n = length ds"
  shows "\<exists>s'. ApplyDefaults_loop (Some p) a i n s = Some s' \<and>
           objs s' p = Some (OMap (map_option VAL \<circ>
             ApplyDefaults m
               (map (\<lambda>d. \<lparr>Required = sRequired d, FieldName = sFieldName d, Type = sType d,
                          Details = sDetails d, Default = sDefault d, Enum = [],
                          Constraints = Map.empty\<rparr>) (drop i ds))))"
  using assms
proof (induction n arbitrary: i s m)
  case 0
  then show ?case by simp
next
  case (Suc n)
  let ?v = "ds ! i"
  from Suc.prems(4) have i: "i < length ds" by simp
  then have dr: "drop i ds = ?v # drop (Suc i) ds"
    by (simp add: Cons_nth_drop_Suc)
  define m' where "m' = (if m (sFieldName ?v) = None \<and> sDefault ?v \<noteq> JNil
                         then m(sFieldName ?v \<mapsto> sDefault ?v) else m)"
  define s1 where "s1 = (if m (sFieldName ?v) = None \<and> sDefault ?v \<noteq> JNil
                         then s\<lparr>objs := (objs s)(p \<mapsto> OMap ((map_option VAL \<circ> m)
                                  (sFieldName ?v \<mapsto> VAL (sDefault ?v))))\<rparr> else s)"
  have body: "ApplyDefaults_body (Some p) ?v s = Some s1"
    using Suc.prems(1)
    by (simp add: ApplyDefaults_body_def get_map_def map_assign_def s1_def comp_def)
  have p1: "objs s1 p = Some (OMap (map_option VAL \<circ> m'))"
    using Suc.prems(1) by (auto simp: s1_def m'_def comp_def fun_eq_iff)
  have sl: "get_slice a s1 = Some ds"
    using Suc.prems(2,3) by (simp add: s1_def get_slice_def)
  have "Suc i + n = length ds" using Suc.prems(4) by simp
  from Suc.IH [OF p1 sl Suc.prems(3) this] obtain s' where
    r: "ApplyDefaults_loop (Some p) a (Suc i) n s1 = Some s'" and
    o: "objs s' p = Some (OMap (map_option VAL \<circ>
             ApplyDefaults m'
               (map (\<lambda>d. \<lparr>Required = sRequired d, FieldName = sFieldName d, Type = sType d,
                          Details = sDetails d, Default = sDefault d, Enum = [],
                          Constraints = Map.empty\<rparr>) (drop (Suc i) ds))))"
    by (elim exE conjE) (rule that)
  have "ApplyDefaults_loop (Some p) a i (Suc n) s = Some s'"
    using body r i Suc.prems(2) by (simp add: get_elem_def)
  moreover have "objs s' p = Some (OMap (map_option VAL \<circ>
             ApplyDefaults m
               (map (\<lambda>d. \<lparr>Required = sRequired d, FieldName = sFieldName d, Type = sType d,
                          Details = sDetails d, Default = sDefault d, Enum = [],
                          Constraints = Map.empty\<rparr>) (drop i ds))))"
    unfolding dr using o by (simp add: m'_def)
  ultimately show ?case by (intro exI conjI)
qed

lemma ApplyDefaults_st_refines:
  assumes "objs s p = Some (OMap (map_option VAL \<circ> m))" and "get_slice a s = Some ds"
    and "p \<noteq> a"
  shows "\<exists>s'. ApplyDefaults_st (Some p) a s = Some s' \<and>
           objs s' p = Some (OMap (map_option VAL \<circ>
             ApplyDefaults m
               (map (\<lambda>d. \<lparr>Required = sRequired d, FieldName = sFieldName d, Type = sType d,
                          Details = sDetails d, Default = sDefault d, Enum = [],
                          Constraints = Map.empty\<rparr>) ds)))"
  using ApplyDefaults_loop_refines [OF assms, of 0 "length ds"] assms(2)
  by (simp add: ApplyDefaults_st_def)

text \<open>
  C9: in a well-formed store, \<^verbatim>\<open>ToSchema\<close>, \<^verbatim>\<open>CreateJsonSchema\<close>,
  \<^verbatim>\<open>ValidateVariablesAgainstSchema\<close> and \<^verbatim>\<open>ValidateVariables\<close> leave every object that
  existed before the call as it was (descriptors, their constraint and enum maps, the
  slice of descriptors, the payload): they write only objects they allocate themselves.
  Descriptor validation leaves the whole store as it was. \<^verbatim>\<open>ApplyDefaults\<close> changes no
  object other than the payload map it is given. \<^verbatim>\<open>fieldNameToLabel\<close> takes and returns
  strings, which are immutable, and has no access to the store.
\<close>

theorem operations_frame:
  assumes "wf_store s"
  shows
    "(\<forall>r s'. ToSchema_st bv s = Some (r, s') \<longrightarrow>
        (\<forall>a. objs s a \<noteq> None \<longrightarrow> objs s' a = objs s a)) \<and>
     (\<forall>r s'. CreateJsonSchema_st vs s = Some (r, s') \<longrightarrow>
        (\<forall>a. objs s a \<noteq> None \<longrightarrow> objs s' a = objs s a)) \<and>
     (\<forall>e s'. ValidateVariablesAgainstSchema_st eng p schema s = Some (e, s') \<longrightarrow>
        (\<forall>a. objs s a \<noteq> None \<longrightarrow> objs s' a = objs s a)) \<and>
     (\<forall>e s'. ValidateVariables_st eng p vs s = Some (e, s') \<longrightarrow>
        (\<forall>a. objs s a \<noteq> None \<longrightarrow> objs s' a = objs s a)) \<and>
     (\<forall>errs s'. Validate_st bv s = Some (errs, s') \<longrightarrow> s' = s) \<and>
     (\<forall>s'. ApplyDefaults_st p vs s = Some s' \<longrightarrow>
        (\<forall>a. Some a \<noteq> p \<longrightarrow> objs s' a = objs s a))"
proof (intro conjI allI impI)
  fix r s' a
  assume "ToSchema_st bv s = Some (r, s')" and "objs s a \<noteq> None"
  then show "objs s' a = objs s a"
    using ToSchema_st_keeps keeps_existing [OF assms] by blast
next
  fix r s' a
  assume "CreateJsonSchema_st vs s = Some (r, s')" and "objs s a \<noteq> None"
  then show "objs s' a = objs s a"
    using CreateJsonSchema_st_keeps keeps_existing [OF assms] by blast
next
  fix e s' a
  assume "ValidateVariablesAgainstSchema_st eng p schema s = Some (e, s')"
    and "objs s a \<noteq> None"
  then show "objs s' a = objs s a"
    using ValidateVariablesAgainstSchema_st_keeps keeps_existing [OF assms] by blast
next
  fix e s' a
  assume "ValidateVariables_st eng p vs s = Some (e, s')" and "objs s a \<noteq> None"
  then show "objs s' a = objs s a"
    using ValidateVariables_st_keeps keeps_existing [OF assms] by blast
next
  fix errs s'
  assume "Validate_st bv s = Some (errs, s')"
  then show "s' = s" by (rule Validate_st_same)
next
  fix s' a
  assume "ApplyDefaults_st p vs s = Some s'" and "Some a \<noteq> p"
  then show "objs s' a = objs s a"
    using ApplyDefaults_st_frame by blast
qed

lemma label_size: "fieldNameToLabel ''size'' = Some ''Size''"
  by code_simp

theorem operations_frame_witness:
  "(let size = \<lparr>sRequired = True, sFieldName = ''size'', sType = ''integer'',
                 sDetails = ''Size in GB'', sDefault = JInt 10, sEnum = None,
                 sConstraints = Some 1\<rparr>;
        s = \<lparr>objs = [0 \<mapsto> OMap [''name'' \<mapsto> VAL (JStr '''')],
                      1 \<mapsto> OMap [''minimum'' \<mapsto> VAL (JInt 1)],
                      2 \<mapsto> OSlice [size]],
              next_addr = 3\<rparr>
    in wf_store s \<and>
       (\<exists>r s'. CreateJsonSchema_st 2 s = Some (r, s') \<and>
          objs s' 0 = objs s 0 \<and> objs s' 1 = objs s 1 \<and> objs s' 2 = objs s 2) \<and>
       (\<exists>s'. ApplyDefaults_st (Some 0) 2 s = Some s' \<and>
          objs s' 0 = Some (OMap [''name'' \<mapsto> VAL (JStr ''''), ''size'' \<mapsto> VAL (JInt 10)]) \<and>
          objs s' 1 = objs s 1 \<and> objs s' 2 = objs s 2))"
proof -
  define size where "size = \<lparr>sRequired = True, sFieldName = ''size'', sType = ''integer'',
                 sDetails = ''Size in GB'', sDefault = JInt 10, sEnum = None,
                 sConstraints = Some 1\<rparr>"
  define s where "s = \<lparr>objs = [0 \<mapsto> OMap [''name'' \<mapsto> VAL (JStr '''')],
                      1 \<mapsto> OMap [''minimum'' \<mapsto> VAL (JInt 1)],
                      2 \<mapsto> OSlice [size]],
              next_addr = 3\<rparr>"
  have w: "wf_store s"
    by (simp add: wf_store_def s_def)
  have ex: "objs s 0 \<noteq> None" "objs s 1 \<noteq> None" "objs s 2 \<noteq> None"
    by (simp_all add: s_def)
  note inst = operations_frame [OF w, of 0 2 "\<lambda>s schema p. Inr []" "Some 0" 0]
  have "\<exists>r s'. CreateJsonSchema_st 2 s = Some (r, s')"
    by (simp add: CreateJsonSchema_st_def CreateJsonSchema_body_def ToSchema_st_def alloc_def
        get_slice_def get_elem_def get_var_def get_map_def get_enum_def map_assign_def
        map_assign_all_def label_size s_def size_def NewStringSet_def Add_def IsEmpty_def
        ToSlice_def KeyTitle_def KeyEnum_def KeyDescription_def KeyType_def KeyDefault_def)
  then obtain r s1 where c: "CreateJsonSchema_st 2 s = Some (r, s1)" by blast
  with inst ex have c': "objs s1 0 = objs s 0 \<and> objs s1 1 = objs s 1 \<and> objs s1 2 = objs s 2"
    by blast
  have "\<exists>s'. ApplyDefaults_st (Some 0) 2 s = Some s' \<and>
          objs s' 0 = Some (OMap [''name'' \<mapsto> VAL (JStr ''''), ''size'' \<mapsto> VAL (JInt 10)])"
    by (simp add: ApplyDefaults_st_def ApplyDefaults_body_def get_slice_def get_elem_def
        get_map_def map_assign_def s_def size_def)
  then obtain s2 where a: "ApplyDefaults_st (Some 0) 2 s = Some s2"
    and a0: "objs s2 0 = Some (OMap [''name'' \<mapsto> VAL (JStr ''''), ''size'' \<mapsto> VAL (JInt 10)])"
    by blast
  from inst a have "objs s2 1 = objs s 1 \<and> objs s2 2 = objs s 2"
    by auto
  with w c c' a a0 show ?thesis
    unfolding Let_def size_def [symmetric] s_def [symmetric] by blast
qed


end
